theory Spec2Isabelle
  imports Main "HOL-Library.Word"
begin

unbundle bit_operations_syntax

section \<open>Outcomes of C code\<close>

text \<open>
  The functions of \<^verbatim>\<open>eval.c\<close>, \<^verbatim>\<open>resource.c\<close> and \<^verbatim>\<open>pciroute.c\<close> take raw pointers.
  A buffer is modelled as the list of the bytes from the pointer to the end of the
  allocation; a read or write past that end is undefined behaviour in C and is the
  outcome \<open>UB\<close> of the model, so that no theorem below speaks about such a run by accident.
\<close>

datatype 'a outcome = Ret 'a | UB

definition and_then :: "'a outcome \<Rightarrow> ('a \<Rightarrow> 'b outcome) \<Rightarrow> 'b outcome" where
  "and_then r f = (case r of Ret x \<Rightarrow> f x | UB \<Rightarrow> UB)"

text \<open>\<^verbatim>\<open>data[k]\<close> on a byte pointer.\<close>

definition byte_at :: "8 word list \<Rightarrow> nat \<Rightarrow> 8 word outcome" where
  "byte_at data k = (if k < length data then Ret (data ! k) else UB)"

text \<open>
  A load of \<open>n\<close> bytes at offset \<open>k\<close> through a cast pointer
  (\<^verbatim>\<open>(uint16_t*)(object + 1)\<close> and the like, or a field of a packed struct), on the
  little-endian host the specification fixes: the value as a natural number.
\<close>

definition load_le :: "nat \<Rightarrow> 8 word list \<Rightarrow> nat \<Rightarrow> nat outcome" where
  "load_le n data k =
     (if k + n \<le> length data then Ret (horner_sum unat 256 (take n (drop k data))) else UB)"

section \<open>Objects\<close>

text \<open>
  \<^verbatim>\<open>lai_object_t\<close> is declared in a header that is not among the sources. The model has
  the fields the three files access: \<^verbatim>\<open>type\<close>, \<^verbatim>\<open>integer\<close>, \<^verbatim>\<open>string\<close>,
  \<^verbatim>\<open>package\<close> with \<^verbatim>\<open>package_size\<close> (the list and its length), \<^verbatim>\<open>buffer\<close> and
  \<^verbatim>\<open>handle\<close> (a pointer to a namespace node; \<open>None\<close> is \<^verbatim>\<open>NULL\<close>).
  \<open>LAI_TYPE_NONE\<close> is the tag of an object initialised with \<^verbatim>\<open>{0}\<close>; no branch of the
  sources tests the tag of such an object before it is written.
\<close>

datatype lai_type =
  LAI_TYPE_NONE | LAI_INTEGER | LAI_STRING | LAI_BUFFER | LAI_PACKAGE | LAI_HANDLE

type_synonym nsref = nat

datatype lai_object = Lai_object
  (o_type: lai_type)
  (o_integer: "64 word")
  (o_string: string)
  (o_package: "lai_object list")
  (o_buffer: "8 word list")
  (o_handle: "nsref option")

fun set_type :: "lai_type \<Rightarrow> lai_object \<Rightarrow> lai_object" where
  "set_type t (Lai_object _ i s p b h) = Lai_object t i s p b h"

fun set_integer :: "64 word \<Rightarrow> lai_object \<Rightarrow> lai_object" where
  "set_integer i (Lai_object t _ s p b h) = Lai_object t i s p b h"

fun set_string :: "string \<Rightarrow> lai_object \<Rightarrow> lai_object" where
  "set_string s (Lai_object t i _ p b h) = Lai_object t i s p b h"

text \<open>\<^verbatim>\<open>lai_object_t x = {0};\<close>\<close>

definition zero_object :: lai_object where
  "zero_object = Lai_object LAI_TYPE_NONE 0 [] [] [] None"

text \<open>
  Modelled from the spec: \<^verbatim>\<open>lai_copy_object\<close> is not among the sources. The
  specification has it deep-copy the source into the destination, overwriting whatever
  the destination held; on values that is the source itself.
\<close>

definition lai_copy_object :: "lai_object \<Rightarrow> lai_object \<Rightarrow> lai_object" where
  "lai_copy_object destination source = source"

section \<open>eval.c\<close>

subsection \<open>\<^verbatim>\<open>lai_eval_integer\<close>\<close>

text \<open>
  The tag bytes come from \<^verbatim>\<open>aml_opcodes.h\<close>, which is not among the sources: they are
  parameters. A C \<^verbatim>\<open>switch\<close> has pairwise distinct labels.
\<close>

record aml_opcodes =
  ZERO_OP :: "8 word"
  ONE_OP :: "8 word"
  ONES_OP :: "8 word"
  BYTEPREFIX :: "8 word"
  WORDPREFIX :: "8 word"
  DWORDPREFIX :: "8 word"
  QWORDPREFIX :: "8 word"

definition switch_labels :: "aml_opcodes \<Rightarrow> 8 word list" where
  "switch_labels ops =
     [ZERO_OP ops, ONE_OP ops, ONES_OP ops, BYTEPREFIX ops, WORDPREFIX ops,
      DWORDPREFIX ops, QWORDPREFIX ops]"

text \<open>
  The result is the pair of \<^verbatim>\<open>integer[0]\<close> after the call and the returned size; the
  third argument is \<^verbatim>\<open>integer[0]\<close> before the call, which the default case leaves alone.
\<close>

definition lai_eval_integer ::
  "aml_opcodes \<Rightarrow> 8 word list \<Rightarrow> 64 word \<Rightarrow> (64 word \<times> nat) outcome" where
  "lai_eval_integer ops object integer =
     and_then (byte_at object 0) (\<lambda>tag.
       if tag = ZERO_OP ops then Ret (0, 1)
       else if tag = ONE_OP ops then Ret (1, 1)
       else if tag = ONES_OP ops then Ret (0xFFFFFFFFFFFFFFFF, 1)
       else if tag = BYTEPREFIX ops then
         and_then (load_le 1 object 1) (\<lambda>byte. Ret (of_nat byte, 2))
       else if tag = WORDPREFIX ops then
         and_then (load_le 2 object 1) (\<lambda>word. Ret (of_nat word, 3))
       else if tag = DWORDPREFIX ops then
         and_then (load_le 4 object 1) (\<lambda>dword. Ret (of_nat dword, 5))
       else if tag = QWORDPREFIX ops then
         and_then (load_le 8 object 1) (\<lambda>qword. Ret (of_nat qword, 9))
       else Ret (integer, 0))"

subsection \<open>\<^verbatim>\<open>lai_parse_pkgsize\<close>\<close>

text \<open>
  \<^verbatim>\<open>data[k] << n\<close> is computed on \<^verbatim>\<open>int\<close> (32 bits) and then converted to
  \<^verbatim>\<open>size_t\<close> (64 bits), which extends the sign. The result is the pair of
  \<^verbatim>\<open>destination[0]\<close> and the returned size.
\<close>

definition shifted_byte :: "8 word \<Rightarrow> nat \<Rightarrow> 64 word" where
  "shifted_byte b n = scast (push_bit n (ucast b :: 32 word))"

definition lai_parse_pkgsize :: "8 word list \<Rightarrow> (64 word \<times> nat) outcome" where
  "lai_parse_pkgsize data =
     and_then (byte_at data 0) (\<lambda>d0.
       let bytecount = drop_bit 6 d0 AND 3 in
       if bytecount = 0 then Ret (ucast (d0 AND 0x3F), unat bytecount + 1)
       else if bytecount = 1 then
         and_then (byte_at data 1) (\<lambda>d1.
           Ret (ucast (d0 AND 0x0F) OR shifted_byte d1 4, unat bytecount + 1))
       else if bytecount = 2 then
         and_then (byte_at data 1) (\<lambda>d1.
         and_then (byte_at data 2) (\<lambda>d2.
           Ret (ucast (d0 AND 0x0F) OR shifted_byte d1 4 OR shifted_byte d2 12,
                unat bytecount + 1)))
       else if bytecount = 3 then
         and_then (byte_at data 1) (\<lambda>d1.
         and_then (byte_at data 2) (\<lambda>d2.
         and_then (byte_at data 3) (\<lambda>d3.
           Ret (ucast (d0 AND 0x0F) OR shifted_byte d1 4 OR shifted_byte d2 12
                  OR shifted_byte d3 20,
                unat bytecount + 1))))
       else Ret (0, unat bytecount + 1))"

subsection \<open>\<^verbatim>\<open>lai_eval_package\<close>\<close>

text \<open>
  The result is the returned status and the destination object after the call.
  \<^verbatim>\<open>lai_warn\<close> only prints.
\<close>

definition lai_eval_package :: "lai_object \<Rightarrow> nat \<Rightarrow> lai_object \<Rightarrow> int \<times> lai_object" where
  "lai_eval_package package index destination =
     (if o_type package \<noteq> LAI_PACKAGE then (1, destination)
      else if index \<ge> length (o_package package) then (1, destination)
      else (0, lai_copy_object destination (o_package package ! index)))"

subsection \<open>\<^verbatim>\<open>bswap32\<close>, \<^verbatim>\<open>char_to_hex\<close> and \<^verbatim>\<open>lai_eisaid\<close>\<close>

definition bswap32 :: "32 word \<Rightarrow> 32 word" where
  "bswap32 dword =
     (drop_bit 24 dword AND 0xFF) OR (push_bit 8 dword AND 0xFF0000)
       OR (drop_bit 8 dword AND 0xFF00) OR (push_bit 24 dword AND 0xFF000000)"

text \<open>
  The value of a \<^verbatim>\<open>char\<close> after promotion to \<^verbatim>\<open>int\<close>. Plain \<^verbatim>\<open>char\<close> is signed on
  the x86 targets of this library; for the ASCII characters (codes 0 to 127) the signed
  and the unsigned reading are the same number.
\<close>

definition char_value :: "char \<Rightarrow> int" where
  "char_value c = (if of_char c < (128 :: int) then of_char c else of_char c - 256)"

definition char_to_hex :: "char \<Rightarrow> 8 word" where
  "char_to_hex character =
     (if char_value character \<le> char_value CHR ''9'' then
        word_of_int (char_value character - char_value CHR ''0'')
      else if char_value character \<ge> char_value CHR ''A''
              \<and> char_value character \<le> char_value CHR ''F'' then
        word_of_int (char_value character - char_value CHR ''A'' + 10)
      else if char_value character \<ge> char_value CHR ''a''
              \<and> char_value character \<le> char_value CHR ''f'' then
        word_of_int (char_value character - char_value CHR ''a'' + 10)
      else 0)"

text \<open>
  \<^verbatim>\<open>E1 << E2\<close> on \<^verbatim>\<open>int\<close>: defined when \<open>E1\<close> is not negative and the product
  \<open>E1 * 2 ^ E2\<close> fits.
\<close>

definition shl_int :: "int \<Rightarrow> nat \<Rightarrow> int outcome" where
  "shl_int x n = (if 0 \<le> x \<and> n < 32 \<and> x * 2 ^ n < 2 ^ 31 then Ret (x * 2 ^ n) else UB)"

definition lai_eisaid :: "lai_object \<Rightarrow> string \<Rightarrow> lai_object outcome" where
  "lai_eisaid object ident =
     (if length ident \<noteq> 7 then Ret (set_string ident (set_type LAI_STRING object))
      else
        and_then (shl_int (char_value (ident ! 0) - 0x40) 26) (\<lambda>s0.
        and_then (shl_int (char_value (ident ! 1) - 0x40) 21) (\<lambda>s1.
        and_then (shl_int (char_value (ident ! 2) - 0x40) 16) (\<lambda>s2.
        and_then (shl_int (uint (char_to_hex (ident ! 3))) 12) (\<lambda>s3.
        and_then (shl_int (uint (char_to_hex (ident ! 4))) 8) (\<lambda>s4.
        and_then (shl_int (uint (char_to_hex (ident ! 5))) 4) (\<lambda>s5.
          let out = (0 :: 32 word) OR word_of_int s0 OR word_of_int s1 OR word_of_int s2
                      OR word_of_int s3 OR word_of_int s4 OR word_of_int s5
                      OR ucast (char_to_hex (ident ! 6));
              out = bswap32 out
          in Ret (set_integer (ucast out AND 0xFFFFFFFF) (set_type LAI_INTEGER object)))))))))"

section \<open>The namespace and the host\<close>

text \<open>
  \<^verbatim>\<open>acpi_resource_t\<close>, the \<^verbatim>\<open>ACPI_IRQ_*\<close> flag values, \<^verbatim>\<open>ACPI_RESOURCE_IRQ\<close>,
  \<^verbatim>\<open>ACPI_MAX_NAME\<close> and \<^verbatim>\<open>ACPI_MAX_RESOURCES\<close> come from a header that is not among
  the sources. The record has the three fields the sources write; the constants are
  parameters, and so are the two fields of \<^verbatim>\<open>acpi_large_irq_t\<close> that
  \<^verbatim>\<open>lai_read_resource\<close> loads (given the bytes from the start of the descriptor).
\<close>

record acpi_resource =
  type :: "8 word"
  base :: "64 word"
  irq_flags :: "8 word"

record lai_constants =
  ACPI_MAX_NAME :: nat
  ACPI_MAX_RESOURCES :: nat
  ACPI_RESOURCE_IRQ :: "8 word"
  ACPI_IRQ_LEVEL :: "8 word"
  ACPI_IRQ_EDGE :: "8 word"
  ACPI_IRQ_ACTIVE_HIGH :: "8 word"
  ACPI_IRQ_EXCLUSIVE :: "8 word"
  ACPI_IRQ_SHARED :: "8 word"
  large_irq_irq :: "8 word list \<Rightarrow> 64 word outcome"
  large_irq_config :: "8 word list \<Rightarrow> 8 word outcome"

text \<open>
  A namespace node (\<^verbatim>\<open>lai_nsnode_t\<close>) with the fields \<^verbatim>\<open>type\<close>, \<^verbatim>\<open>path\<close>,
  \<^verbatim>\<open>alias\<close> and \<^verbatim>\<open>object\<close> that the sources read. The namespace itself, the
  resolvers \<^verbatim>\<open>lai_exec_resolve\<close> and \<^verbatim>\<open>lai_resolve\<close>, the method interpreter
  \<^verbatim>\<open>lai_exec_method\<close> (its status and \<^verbatim>\<open>state.retvalue\<close>) and the host's
  \<^verbatim>\<open>laihost_pci_read\<close> are the environment of the three files: they are fields of one
  record. \<open>devices_with_id\<close> lists the devices that carry a given identifier. The
  namespace does not change during a call: what a method does to it is not followed.
  The configuration read returns the 16-bit value the specification gives it.
\<close>

datatype ns_type =
  LAI_NAMESPACE_NAME | LAI_NAMESPACE_METHOD | LAI_NAMESPACE_ALIAS | LAI_NAMESPACE_DEVICE

record lai_nsnode =
  n_type :: ns_type
  n_path :: string
  n_alias :: string
  n_object :: lai_object

record namespace =
  constants :: lai_constants
  node :: "nsref \<Rightarrow> lai_nsnode"
  lai_exec_resolve :: "string \<Rightarrow> nsref option"
  lai_resolve :: "string \<Rightarrow> nsref option"
  lai_exec_method :: "nsref \<Rightarrow> int \<times> lai_object"
  devices_with_id :: "lai_object \<Rightarrow> nsref list"
  laihost_pci_read :: "8 word \<Rightarrow> 8 word \<Rightarrow> 8 word \<Rightarrow> 16 word \<Rightarrow> 16 word"

text \<open>
  Modelled from the spec: \<^verbatim>\<open>lai_get_deviceid\<close> is not among the sources. The
  specification has it iterate by index over the devices that match the identifier and
  return none once the index exceeds the match count.
\<close>

definition lai_get_deviceid :: "namespace \<Rightarrow> nat \<Rightarrow> lai_object \<Rightarrow> nsref option" where
  "lai_get_deviceid ns index ident =
     (if index < length (devices_with_id ns ident) then Some (devices_with_id ns ident ! index)
      else None)"

text \<open>
  Modelled from the spec: \<^verbatim>\<open>lai_move_object\<close> is not among the sources. The
  specification has the return value of a method moved into the result.
\<close>

definition lai_move_object :: "lai_object \<Rightarrow> lai_object \<Rightarrow> lai_object" where
  "lai_move_object destination source = source"

text \<open>
  \<^verbatim>\<open>lai_strcpy(buf, path); lai_strcpy(buf + lai_strlen(buf), suffix);\<close> into a buffer
  of \<open>n\<close> characters: the two strings and the terminator must fit.
\<close>

definition path_append :: "nat \<Rightarrow> string \<Rightarrow> string \<Rightarrow> string outcome" where
  "path_append n p suffix = (if length p + length suffix + 1 \<le> n then Ret (p @ suffix) else UB)"

subsection \<open>\<^verbatim>\<open>lai_eval\<close>\<close>

text \<open>
  The loop that follows aliases has no bound in the source; not returning is \<open>None\<close>.
  The inner option is the handle, \<open>None\<close> for \<^verbatim>\<open>NULL\<close>.
\<close>

partial_function (option) follow_alias :: "namespace \<Rightarrow> nsref \<Rightarrow> nsref option option" where
  "follow_alias ns handle =
     (if n_type (node ns handle) = LAI_NAMESPACE_ALIAS then
        (case lai_resolve ns (n_alias (node ns handle)) of
           None \<Rightarrow> Some None
         | Some handle' \<Rightarrow> follow_alias ns handle')
      else Some (Some handle))"

declare follow_alias.simps [code]

definition lai_eval :: "namespace \<Rightarrow> lai_object \<Rightarrow> string \<Rightarrow> (int \<times> lai_object) option" where
  "lai_eval ns destination path =
     (case lai_exec_resolve ns path of
        None \<Rightarrow> Some (1, destination)
      | Some handle \<Rightarrow>
          (case follow_alias ns handle of
             None \<Rightarrow> None
           | Some None \<Rightarrow> Some (1, destination)
           | Some (Some handle) \<Rightarrow>
               if n_type (node ns handle) = LAI_NAMESPACE_NAME then
                 Some (0, lai_copy_object destination (n_object (node ns handle)))
               else if n_type (node ns handle) = LAI_NAMESPACE_METHOD then
                 (case lai_exec_method ns handle of
                    (ret, retvalue) \<Rightarrow>
                      if ret \<noteq> 0 then Some (ret, destination)
                      else Some (0, lai_move_object destination retvalue))
               else Some (1, destination)))"

section \<open>resource.c\<close>

definition ACPI_SMALL_IRQ :: "8 word" where
  "ACPI_SMALL_IRQ = 0x04"

definition ACPI_SMALL_END :: "8 word" where
  "ACPI_SMALL_END = 0x0F"

definition ACPI_LARGE_IRQ :: "8 word" where
  "ACPI_LARGE_IRQ = 0x89"

text \<open>
  \<^verbatim>\<open>dest[count].type = t; dest[count].base = b; dest[count].irq_flags = f;\<close> The
  destination is the caller's array; the source never compares \<open>count\<close> with its size.
\<close>

definition write_irq ::
  "acpi_resource list \<Rightarrow> nat \<Rightarrow> 8 word \<Rightarrow> 64 word \<Rightarrow> 8 word \<Rightarrow> acpi_resource list outcome" where
  "write_irq dest count t b f =
     (if count < length dest
      then Ret (dest[count := (dest ! count)\<lparr>type := t, base := b, irq_flags := f\<rparr>])
      else UB)"

text \<open>
  The inner loop of the small IRQ case. Modelled from the spec: \<^verbatim>\<open>acpi_small_irq_t\<close>
  is not among the sources; the specification puts the 16-bit mask first in the payload
  (bytes 1 and 2 of the descriptor) and the config byte third (byte 3).
  \<^verbatim>\<open>1 << i\<close> is an \<^verbatim>\<open>int\<close>: at \<open>i \<ge> 31\<close> the shift is undefined.
\<close>

function small_irq_loop ::
  "lai_constants \<Rightarrow> 8 word list \<Rightarrow> nat \<Rightarrow> 16 word \<Rightarrow> nat \<Rightarrow> nat \<Rightarrow> acpi_resource list
     \<Rightarrow> (nat \<times> acpi_resource list) outcome" where
  "small_irq_loop c data data_size small_irq_mask i count dest =
     (if small_irq_mask \<noteq> 0 then
        (if 31 \<le> i then UB
         else if (ucast small_irq_mask :: 32 word) AND push_bit i 1 \<noteq> 0 then
           (case (if data_size \<ge> 3 then byte_at data 3
                  else Ret (ACPI_IRQ_ACTIVE_HIGH c OR ACPI_IRQ_EDGE c OR ACPI_IRQ_EXCLUSIVE c)) of
              UB \<Rightarrow> UB
            | Ret flags \<Rightarrow>
               (case write_irq dest count (ACPI_RESOURCE_IRQ c) (of_nat i) flags of
                  UB \<Rightarrow> UB
                | Ret dest' \<Rightarrow>
                    small_irq_loop c data data_size
                      (ucast ((ucast small_irq_mask :: 32 word) AND NOT (push_bit i 1)))
                      (i + 1) (count + 1) dest'))
         else small_irq_loop c data data_size small_irq_mask (i + 1) count dest)
      else Ret (count, dest))"
  by pat_completeness auto
termination
  by (relation "measure (\<lambda>(c, data, data_size, small_irq_mask, i, count, dest). 31 - i)") auto

declare small_irq_loop.simps [simp del]

text \<open>
  The \<^verbatim>\<open>while(data[0] != 0x79)\<close> loop; \<open>data\<close> is the bytes from the moving pointer
  to the end of the buffer. The result is the returned count and the destination array.
  \<^verbatim>\<open>lai_debug\<close> only prints.
\<close>

function lai_read_loop ::
  "lai_constants \<Rightarrow> 8 word list \<Rightarrow> nat \<Rightarrow> acpi_resource list
     \<Rightarrow> (nat \<times> acpi_resource list) outcome" where
  "lai_read_loop c data count dest =
     (case data of
        [] \<Rightarrow> UB
      | d0 # _ \<Rightarrow>
          if d0 = 0x79 then Ret (count, dest)
          else if d0 AND 0x80 = 0 then
            (if drop_bit 3 d0 = ACPI_SMALL_END then Ret (count, dest)
             else if drop_bit 3 d0 = ACPI_SMALL_IRQ then
               (case load_le 2 data 1 of
                  UB \<Rightarrow> UB
                | Ret small_irq_mask \<Rightarrow>
                    (case small_irq_loop c data (unat (d0 AND 7)) (of_nat small_irq_mask)
                            0 count dest of
                       UB \<Rightarrow> UB
                     | Ret (count', dest') \<Rightarrow>
                         lai_read_loop c (drop (unat (d0 AND 7) + 1) data) count' dest'))
             else Ret (0, dest))
          else
            (case byte_at data 1 of
               UB \<Rightarrow> UB
             | Ret d1 \<Rightarrow>
                (case byte_at data 2 of
                   UB \<Rightarrow> UB
                 | Ret d2 \<Rightarrow>
                    if d0 = ACPI_LARGE_IRQ then
                      (case large_irq_irq c data of
                         UB \<Rightarrow> UB
                       | Ret irq \<Rightarrow>
                          (case large_irq_config c data of
                             UB \<Rightarrow> UB
                           | Ret config \<Rightarrow>
                              (case write_irq dest count (ACPI_RESOURCE_IRQ c) irq config of
                                 UB \<Rightarrow> UB
                               | Ret dest' \<Rightarrow>
                                   lai_read_loop c
                                     (drop (unat ((ucast d1 AND 0xFF) OR shifted_byte (d2 AND 0xFF) 8) + 3)
                                        data)
                                     (count + 1) dest')))
                    else Ret (0, dest))))"
  by pat_completeness auto
termination
  by (relation "measure (\<lambda>(c, data, count, dest). length data)") auto

declare lai_read_loop.simps [simp del]

text \<open>
  \<^verbatim>\<open>lai_read_resource\<close>. The device is a pointer to a node; the buffer field of the
  evaluated object is read whatever its type. \<open>None\<close> is a call that does not return.
\<close>

definition lai_read_resource ::
  "namespace \<Rightarrow> nsref option \<Rightarrow> acpi_resource list
     \<Rightarrow> (nat \<times> acpi_resource list) outcome option" where
  "lai_read_resource ns device dest =
     (case device of
        None \<Rightarrow> Some UB
      | Some dev \<Rightarrow>
          (case path_append (ACPI_MAX_NAME (constants ns)) (n_path (node ns dev)) ''._CRS'' of
             UB \<Rightarrow> Some UB
           | Ret crs \<Rightarrow>
               (case lai_eval ns zero_object crs of
                  None \<Rightarrow> None
                | Some (status, buffer) \<Rightarrow>
                    if status \<noteq> 0 then Some (Ret (0, dest))
                    else Some (lai_read_loop (constants ns) (o_buffer buffer) 0 dest))))"

section \<open>pciroute.c\<close>

definition PCI_PNP_ID :: string where
  "PCI_PNP_ID = ''PNP0A03''"

text \<open>
  The loop that looks for the root bus with the wanted \<^verbatim>\<open>_BBN\<close>. At the head of
  every iteration \<open>handle\<close> is \<^verbatim>\<open>lai_get_deviceid(index, &pnp_id)\<close>. The result is
  \<open>handle\<close> after the loop.
\<close>

function find_root_bus ::
  "namespace \<Rightarrow> 8 word \<Rightarrow> lai_object \<Rightarrow> nat \<Rightarrow> lai_object \<Rightarrow> nsref option outcome option" where
  "find_root_bus ns bus pnp_id index bus_number =
     (case lai_get_deviceid ns index pnp_id of
        None \<Rightarrow> Some (Ret None)
      | Some handle \<Rightarrow>
          (case path_append (ACPI_MAX_NAME (constants ns)) (n_path (node ns handle)) ''._BBN'' of
             UB \<Rightarrow> Some UB
           | Ret path \<Rightarrow>
               (case lai_eval ns bus_number path of
                  None \<Rightarrow> None
                | Some (status, bus_number') \<Rightarrow>
                    if ucast (o_integer (if status \<noteq> 0
                                         then set_integer 0 (set_type LAI_INTEGER bus_number')
                                         else bus_number')) = bus
                    then Some (Ret (Some handle))
                    else find_root_bus ns bus pnp_id (index + 1)
                           (if status \<noteq> 0 then set_integer 0 (set_type LAI_INTEGER bus_number')
                            else bus_number'))))"
  by pat_completeness auto
termination
  by (relation "measure (\<lambda>(ns, bus, pnp_id, index, bus_number).
        length (devices_with_id ns pnp_id) - index)")
     (auto simp: lai_get_deviceid_def split: if_splits)

declare find_root_bus.simps [simp del]

text \<open>
  The \<^verbatim>\<open>while(1)\<close> scan of the \<^verbatim>\<open>_PRT\<close> package. It ends either with
  \<^verbatim>\<open>return 1\<close> or at the label \<^verbatim>\<open>resolve_pin\<close>, with the index and the two local
  objects as they are there.
\<close>

datatype scan_result = Return_1 | Resolve_pin nat lai_object lai_object

function prt_scan ::
  "lai_object \<Rightarrow> 8 word \<Rightarrow> 8 word \<Rightarrow> 8 word \<Rightarrow> nat \<Rightarrow> lai_object \<Rightarrow> lai_object \<Rightarrow> scan_result" where
  "prt_scan prt slot func pin i prt_package prt_entry =
     (case lai_eval_package prt i prt_package of
        (status, prt_package') \<Rightarrow>
          if status \<noteq> 0 then Return_1
          else if o_type prt_package' \<noteq> LAI_PACKAGE then Return_1
          else
            (case lai_eval_package prt_package' 0 prt_entry of
               (status, prt_entry') \<Rightarrow>
                 if status \<noteq> 0 then Return_1
                 else if o_type prt_entry' \<noteq> LAI_INTEGER then Return_1
                 else if drop_bit 16 (o_integer prt_entry') = ucast slot
                         \<and> (o_integer prt_entry' AND 0xFFFF = 0xFFFF
                              \<or> o_integer prt_entry' AND 0xFFFF = ucast func)
                 then
                   (case lai_eval_package prt_package' 1 prt_entry' of
                      (status, prt_entry'') \<Rightarrow>
                        if status \<noteq> 0 then Return_1
                        else if o_type prt_entry'' \<noteq> LAI_INTEGER then Return_1
                        else if o_integer prt_entry'' = ucast pin
                        then Resolve_pin i prt_package' prt_entry''
                        else prt_scan prt slot func pin (i + 1) prt_package' prt_entry'')
                 else prt_scan prt slot func pin (i + 1) prt_package' prt_entry'))"
  by pat_completeness auto
termination
  by (relation "measure (\<lambda>(prt, slot, func, pin, i, prt_package, prt_entry).
        length (o_package prt) - i)")
     (auto simp: lai_eval_package_def split: if_splits)

declare prt_scan.simps [simp del]

text \<open>
  The loop over the resources of the link device, with what follows it
  (the final \<^verbatim>\<open>return 0\<close>). The result is the status and the caller's \<^verbatim>\<open>*dest\<close>.
\<close>

function link_loop ::
  "lai_constants \<Rightarrow> acpi_resource \<Rightarrow> acpi_resource list \<Rightarrow> nat \<Rightarrow> nat
     \<Rightarrow> (int \<times> acpi_resource) outcome" where
  "link_loop c dest res res_count i =
     (if i < res_count then
        (if i < length res then
           (if type (res ! i) = ACPI_RESOURCE_IRQ c then
              Ret (0, dest\<lparr>type := ACPI_RESOURCE_IRQ c, base := base (res ! i),
                              irq_flags := irq_flags (res ! i)\<rparr>)
            else link_loop c dest res res_count (i + 1))
         else UB)
      else Ret (0, dest))"
  by pat_completeness auto
termination
  by (relation "measure (\<lambda>(c, dest, res, res_count, i). res_count - i)") auto

declare link_loop.simps [simp del]

text \<open>\<^verbatim>\<open>lai_calloc(sizeof(acpi_resource_t), ACPI_MAX_RESOURCES)\<close>: zeroed entries.\<close>

definition zero_resources :: "lai_constants \<Rightarrow> acpi_resource list" where
  "zero_resources c = replicate (ACPI_MAX_RESOURCES c) \<lparr>type = 0, base = 0, irq_flags = 0\<rparr>"

text \<open>The code from the label \<^verbatim>\<open>resolve_pin\<close> on.\<close>

definition resolve_pin ::
  "namespace \<Rightarrow> acpi_resource \<Rightarrow> lai_object \<Rightarrow> lai_object
     \<Rightarrow> (int \<times> acpi_resource) outcome option" where
  "resolve_pin ns dest prt_package prt_entry =
     (case lai_eval_package prt_package 2 prt_entry of
        (status, prt_entry') \<Rightarrow>
          if status \<noteq> 0 then Some (Ret (1, dest))
          else if o_type prt_entry' = LAI_INTEGER then
            (case lai_eval_package prt_package 3 prt_entry' of
               (status, prt_entry'') \<Rightarrow>
                 if status \<noteq> 0 then Some (Ret (1, dest))
                 else Some (Ret (0, dest\<lparr>type := ACPI_RESOURCE_IRQ (constants ns),
                                         base := o_integer prt_entry'',
                                         irq_flags := ACPI_IRQ_LEVEL (constants ns)
                                           OR ACPI_IRQ_ACTIVE_HIGH (constants ns)
                                           OR ACPI_IRQ_SHARED (constants ns)\<rparr>)))
          else if o_type prt_entry' = LAI_HANDLE then
            (case lai_read_resource ns (o_handle prt_entry') (zero_resources (constants ns)) of
               None \<Rightarrow> None
             | Some UB \<Rightarrow> Some UB
             | Some (Ret (res_count, res)) \<Rightarrow>
                 if res_count = 0 then Some (Ret (1, dest))
                 else Some (link_loop (constants ns) dest res res_count 0))
          else Some (Ret (1, dest)))"

text \<open>The function after \<^verbatim>\<open>pin--\<close>, with the decremented pin as a parameter.\<close>

definition route_pin ::
  "namespace \<Rightarrow> acpi_resource \<Rightarrow> 8 word \<Rightarrow> 8 word \<Rightarrow> 8 word \<Rightarrow> 8 word
     \<Rightarrow> (int \<times> acpi_resource) outcome option" where
  "route_pin ns dest bus slot func pin =
     (case lai_eisaid zero_object PCI_PNP_ID of
        UB \<Rightarrow> Some UB
      | Ret pnp_id \<Rightarrow>
          (case find_root_bus ns bus pnp_id 0 zero_object of
             None \<Rightarrow> None
           | Some UB \<Rightarrow> Some UB
           | Some (Ret None) \<Rightarrow> Some (Ret (1, dest))
           | Some (Ret (Some handle)) \<Rightarrow>
               (case path_append (ACPI_MAX_NAME (constants ns)) (n_path (node ns handle))
                       ''._PRT'' of
                  UB \<Rightarrow> Some UB
                | Ret path \<Rightarrow>
                    (case lai_eval ns zero_object path of
                       None \<Rightarrow> None
                     | Some (status, prt) \<Rightarrow>
                         if status \<noteq> 0 then Some (Ret (1, dest))
                         else
                           (case prt_scan prt slot func pin 0 zero_object zero_object of
                              Return_1 \<Rightarrow> Some (Ret (1, dest))
                            | Resolve_pin i prt_package prt_entry \<Rightarrow>
                                resolve_pin ns dest prt_package prt_entry)))))"

text \<open>
  \<^verbatim>\<open>lai_pci_route\<close>: the status and \<^verbatim>\<open>*dest\<close> after the call; \<open>None\<close> is a call
  that does not return.
\<close>

definition lai_pci_route ::
  "namespace \<Rightarrow> acpi_resource \<Rightarrow> 8 word \<Rightarrow> 8 word \<Rightarrow> 8 word
     \<Rightarrow> (int \<times> acpi_resource) outcome option" where
  "lai_pci_route ns dest bus slot func =
     (let pin = (ucast (drop_bit 8 (laihost_pci_read ns bus slot func 0x3C)) :: 8 word) in
      if pin = 0 \<or> pin > 4 then Some (Ret (1, dest))
      else route_pin ns dest bus slot func (pin - 1))"

section \<open>Reference definitions for the statements\<close>

text \<open>
  The package-size encoder, written from the layout the specification gives: the top two
  bits of the first byte are the selector; below them the first byte carries the low six
  bits of the size (selector 0) or its low four bits (otherwise); each following byte
  carries the next eight bits, the most significant byte last.
\<close>

definition pkgsize_bits :: "nat \<Rightarrow> nat" where
  "pkgsize_bits selector = (if selector = 0 then 6 else 4 + 8 * selector)"

definition pkgsize_encode :: "nat \<Rightarrow> 64 word \<Rightarrow> 8 word list" where
  "pkgsize_encode selector sz =
     (if selector = 0 then [ucast (take_bit 6 sz)]
      else (push_bit 6 (of_nat selector) OR ucast (take_bit 4 sz))
             # map (\<lambda>k. ucast (drop_bit (4 + 8 * k) sz)) [0..<selector])"

text \<open>
  One assignment of the tag bytes, used where a statement is evaluated on an example:
  the values the ACPI specification gives them.
\<close>

definition acpi_opcodes :: aml_opcodes where
  "acpi_opcodes =
     \<lparr>ZERO_OP = 0x00, ONE_OP = 0x01, ONES_OP = 0xFF, BYTEPREFIX = 0x0A, WORDPREFIX = 0x0B,
      DWORDPREFIX = 0x0C, QWORDPREFIX = 0x0E\<rparr>"

text \<open>
  The identifiers \<^verbatim>\<open>lai_eisaid\<close> is written for: three upper-case letters and four
  hexadecimal digits. A letter's code is its ASCII value minus 0x40. A hexadecimal digit
  has its value, and a character that is no hexadecimal digit decodes to 0.
\<close>

definition is_upper_letter :: "char \<Rightarrow> bool" where
  "is_upper_letter c \<longleftrightarrow>
     (of_char CHR ''A'' :: nat) \<le> of_char c \<and> (of_char c :: nat) \<le> of_char CHR ''Z''"

definition letter_code :: "char \<Rightarrow> nat" where
  "letter_code c = of_char c - 0x40"

definition is_digit :: "char \<Rightarrow> bool" where
  "is_digit c \<longleftrightarrow>
     (of_char CHR ''0'' :: nat) \<le> of_char c \<and> (of_char c :: nat) \<le> of_char CHR ''9''"

definition is_hex_upper :: "char \<Rightarrow> bool" where
  "is_hex_upper c \<longleftrightarrow>
     (of_char CHR ''A'' :: nat) \<le> of_char c \<and> (of_char c :: nat) \<le> of_char CHR ''F''"

definition is_hex_lower :: "char \<Rightarrow> bool" where
  "is_hex_lower c \<longleftrightarrow>
     (of_char CHR ''a'' :: nat) \<le> of_char c \<and> (of_char c :: nat) \<le> of_char CHR ''f''"

definition is_hex_digit :: "char \<Rightarrow> bool" where
  "is_hex_digit c \<longleftrightarrow> is_digit c \<or> is_hex_upper c \<or> is_hex_lower c"

definition hex_digit_value :: "char \<Rightarrow> nat" where
  "hex_digit_value c =
     (if is_digit c then of_char c - of_char CHR ''0''
      else if is_hex_upper c then of_char c - of_char CHR ''A'' + 10
      else if is_hex_lower c then of_char c - of_char CHR ''a'' + 10
      else 0)"

text \<open>Byte \<open>k\<close> of a 32-bit word, byte 0 the least significant.\<close>

definition byte_of :: "32 word \<Rightarrow> nat \<Rightarrow> 8 word" where
  "byte_of w k = ucast (drop_bit (8 * k) w)"

text \<open>
  The packed identifier of a 7-character string as the specification words it: each of
  the first three characters contributes the 5 bits of its letter code, to bits 26 to 30,
  21 to 25 and 16 to 20; the four characters after them contribute their values as the
  four nibbles of the low 16 bits, the first of them highest; and the four bytes of the
  whole are put in the opposite order.
\<close>

definition packed_word :: "string \<Rightarrow> 32 word" where
  "packed_word ident =
     push_bit 26 (take_bit 5 (of_nat (letter_code (ident ! 0))))
       OR push_bit 21 (take_bit 5 (of_nat (letter_code (ident ! 1))))
       OR push_bit 16 (take_bit 5 (of_nat (letter_code (ident ! 2))))
       OR push_bit 12 (of_nat (hex_digit_value (ident ! 3)))
       OR push_bit 8 (of_nat (hex_digit_value (ident ! 4)))
       OR push_bit 4 (of_nat (hex_digit_value (ident ! 5)))
       OR of_nat (hex_digit_value (ident ! 6))"

definition byte_swap :: "32 word \<Rightarrow> 32 word" where
  "byte_swap w =
     push_bit 24 (ucast (byte_of w 0)) OR push_bit 16 (ucast (byte_of w 1))
       OR push_bit 8 (ucast (byte_of w 2)) OR ucast (byte_of w 3)"

definition packed_id :: "string \<Rightarrow> 32 word" where
  "packed_id ident = byte_swap (packed_word ident)"

text \<open>
  The characters whose letter code is a 5-bit number, the upper-case letters among them,
  and the ASCII characters from the digit zero on, the hexadecimal digits among them.
\<close>

definition letter_code_fits :: "char \<Rightarrow> bool" where
  "letter_code_fits c \<longleftrightarrow> (0x40 :: nat) \<le> of_char c \<and> (of_char c :: nat) \<le> 0x5F"

definition not_below_digits :: "char \<Rightarrow> bool" where
  "not_below_digits c \<longleftrightarrow>
     (of_char CHR ''0'' :: nat) \<le> of_char c \<and> (of_char c :: nat) < 128"

text \<open>
  The interrupt lines a 16-bit mask names, in ascending order, and the array after an
  entry has been stored for each of them from index \<open>count\<close> on.
\<close>

definition irq_lines :: "16 word \<Rightarrow> nat list" where
  "irq_lines m = filter (bit m) [0..<16]"

fun store_irqs ::
  "lai_constants \<Rightarrow> 8 word \<Rightarrow> nat list \<Rightarrow> nat \<Rightarrow> acpi_resource list \<Rightarrow> acpi_resource list" where
  "store_irqs c flags [] count dest = dest"
| "store_irqs c flags (i # lines) count dest =
     store_irqs c flags lines (count + 1)
       (dest[count := (dest ! count)\<lparr>type := ACPI_RESOURCE_IRQ c, base := of_nat i,
                                     irq_flags := flags\<rparr>])"

text \<open>
  The framing of a resource buffer as the specification gives it, and whether the
  stream holds a descriptor of an unrecognised type before any end tag: a small
  descriptor (bit 7 clear) has its type in bits 6 to 3 and its payload length in bits 2
  to 0; a large one has its type in the tag byte and a 16-bit little-endian payload
  length in the next two bytes.
\<close>

function unknown_before_end :: "8 word list \<Rightarrow> bool" where
  "unknown_before_end [] = False"
| "unknown_before_end (t # rest) =
     (if t = 0x79 then False
      else if \<not> bit t 7 then
        (if drop_bit 3 t = ACPI_SMALL_END then False
         else if drop_bit 3 t = ACPI_SMALL_IRQ
           then unknown_before_end (drop (unat (take_bit 3 t)) rest)
         else True)
      else
        (if t = ACPI_LARGE_IRQ then
           (case rest of
              l0 # l1 # payload \<Rightarrow> unknown_before_end (drop (unat l0 + 256 * unat l1) payload)
            | _ \<Rightarrow> False)
         else True))"
  by pat_completeness auto
termination
  by (relation "measure length") auto

declare unknown_before_end.simps [simp del]

text \<open>
  A small namespace, used where a statement is evaluated on an example: one PCI root bus
  whose routing table sends slot 1 through the link device LNKA, slot 2 to the global
  interrupt 9 and slot 3 through the link device LNKB, whose resource buffer holds the
  end tag only; the buffer of LNKC has an I/O port descriptor, which
  \<^verbatim>\<open>lai_read_resource\<close> does not know, after an IRQ descriptor. The interrupt pin of
  a function is the number of its slot. The constants are one assignment of the
  parameters: the flag bits of the ACPI interrupt descriptors, room for four resources,
  and the two fields of the large descriptor at the offsets of the ACPI extended
  interrupt descriptor.
\<close>

definition example_constants :: lai_constants where
  "example_constants =
     \<lparr>ACPI_MAX_NAME = 64, ACPI_MAX_RESOURCES = 4, ACPI_RESOURCE_IRQ = 3,
      ACPI_IRQ_LEVEL = 0x00, ACPI_IRQ_EDGE = 0x01, ACPI_IRQ_ACTIVE_HIGH = 0x00,
      ACPI_IRQ_EXCLUSIVE = 0x00, ACPI_IRQ_SHARED = 0x10,
      large_irq_irq = (\<lambda>data. case load_le 4 data 5 of Ret v \<Rightarrow> Ret (of_nat v) | UB \<Rightarrow> UB),
      large_irq_config = (\<lambda>data. byte_at data 3)\<rparr>"

definition example_prt :: lai_object where
  "example_prt = Lai_object LAI_PACKAGE 0 []
     [Lai_object LAI_PACKAGE 0 []
        [Lai_object LAI_INTEGER 0x0001FFFF [] [] [] None,
         Lai_object LAI_INTEGER 0 [] [] [] None,
         Lai_object LAI_HANDLE 0 [] [] [] (Some 2),
         Lai_object LAI_INTEGER 0 [] [] [] None] [] None,
      Lai_object LAI_PACKAGE 0 []
        [Lai_object LAI_INTEGER 0x0002FFFF [] [] [] None,
         Lai_object LAI_INTEGER 1 [] [] [] None,
         Lai_object LAI_INTEGER 0 [] [] [] None,
         Lai_object LAI_INTEGER 9 [] [] [] None] [] None,
      Lai_object LAI_PACKAGE 0 []
        [Lai_object LAI_INTEGER 0x0003FFFF [] [] [] None,
         Lai_object LAI_INTEGER 2 [] [] [] None,
         Lai_object LAI_HANDLE 0 [] [] [] (Some 4),
         Lai_object LAI_INTEGER 0 [] [] [] None] [] None] [] None"

definition example_nodes :: "lai_nsnode list" where
  "example_nodes =
     [\<lparr>n_type = LAI_NAMESPACE_DEVICE, n_path = ''_SB_.PCI0'', n_alias = [], n_object = zero_object\<rparr>,
      \<lparr>n_type = LAI_NAMESPACE_NAME, n_path = ''_SB_.PCI0._PRT'', n_alias = [],
        n_object = example_prt\<rparr>,
      \<lparr>n_type = LAI_NAMESPACE_DEVICE, n_path = ''_SB_.LNKA'', n_alias = [], n_object = zero_object\<rparr>,
      \<lparr>n_type = LAI_NAMESPACE_NAME, n_path = ''_SB_.LNKA._CRS'', n_alias = [],
        n_object = Lai_object LAI_BUFFER 0 [] [] [0x23, 0x20, 0x00, 0x18, 0x79, 0x00] None\<rparr>,
      \<lparr>n_type = LAI_NAMESPACE_DEVICE, n_path = ''_SB_.LNKB'', n_alias = [], n_object = zero_object\<rparr>,
      \<lparr>n_type = LAI_NAMESPACE_NAME, n_path = ''_SB_.LNKB._CRS'', n_alias = [],
        n_object = Lai_object LAI_BUFFER 0 [] [] [0x79, 0x00] None\<rparr>,
      \<lparr>n_type = LAI_NAMESPACE_DEVICE, n_path = ''_SB_.LNKC'', n_alias = [], n_object = zero_object\<rparr>,
      \<lparr>n_type = LAI_NAMESPACE_NAME, n_path = ''_SB_.LNKC._CRS'', n_alias = [],
        n_object = Lai_object LAI_BUFFER 0 [] []
          [0x22, 0x20, 0x00, 0x47, 0x01, 0x70, 0x00, 0x70, 0x00, 0x01, 0x08, 0x79, 0x00] None\<rparr>]"

definition example_resolve :: "string \<Rightarrow> nsref option" where
  "example_resolve p =
     map_of [(''_SB_.PCI0._PRT'', 1), (''_SB_.LNKA._CRS'', 3), (''_SB_.LNKB._CRS'', 5),
             (''_SB_.LNKC._CRS'', 7)] p"

definition example_namespace :: namespace where
  "example_namespace =
     \<lparr>constants = example_constants,
      node = (\<lambda>h. example_nodes ! h),
      lai_exec_resolve = example_resolve,
      lai_resolve = example_resolve,
      lai_exec_method = (\<lambda>h. (1, zero_object)),
      devices_with_id = (\<lambda>ident. if o_type ident = LAI_INTEGER \<and> o_integer ident = 0x030AD041
                                   then [0] else []),
      laihost_pci_read = (\<lambda>bus slot func offset.
         if offset = 0x3C then push_bit 8 (ucast slot) OR 0x0B else 0)\<rparr>"

text \<open>
  What the routing scan looks for. The address of an entry matches a slot and a function
  when its bits from bit 16 up (the high 16 bits of a 32-bit address) are the slot and
  its low 16 bits are the function or the wildcard 0xFFFF. An entry matches when it is a
  package whose elements [0] and [1] are integers, the address matching and the pin
  equal to the wanted pin. An entry is skipped when the scan can read it and go on: a
  package whose element [0] is an integer and which, if the address matches, has an
  integer element [1] other than the wanted pin.
\<close>

definition prt_address_matches :: "8 word \<Rightarrow> 8 word \<Rightarrow> 64 word \<Rightarrow> bool" where
  "prt_address_matches slot func address \<longleftrightarrow>
     drop_bit 16 address = ucast slot
     \<and> (take_bit 16 address = ucast func \<or> take_bit 16 address = 0xFFFF)"

definition prt_entry_matches :: "8 word \<Rightarrow> 8 word \<Rightarrow> 8 word \<Rightarrow> lai_object \<Rightarrow> bool" where
  "prt_entry_matches slot func pin entry \<longleftrightarrow>
     o_type entry = LAI_PACKAGE \<and> 2 \<le> length (o_package entry)
     \<and> o_type (o_package entry ! 0) = LAI_INTEGER
     \<and> prt_address_matches slot func (o_integer (o_package entry ! 0))
     \<and> o_type (o_package entry ! 1) = LAI_INTEGER
     \<and> o_integer (o_package entry ! 1) = ucast pin"

definition prt_entry_skipped :: "8 word \<Rightarrow> 8 word \<Rightarrow> 8 word \<Rightarrow> lai_object \<Rightarrow> bool" where
  "prt_entry_skipped slot func pin entry \<longleftrightarrow>
     o_type entry = LAI_PACKAGE \<and> 1 \<le> length (o_package entry)
     \<and> o_type (o_package entry ! 0) = LAI_INTEGER
     \<and> (prt_address_matches slot func (o_integer (o_package entry ! 0)) \<longrightarrow>
          2 \<le> length (o_package entry) \<and> o_type (o_package entry ! 1) = LAI_INTEGER
          \<and> o_integer (o_package entry ! 1) \<noteq> ucast pin)"

text \<open>
  Three routing tables for slot 1, function 2, pin 0: the wildcard entry before the
  exact one, the exact one before the wildcard, and an integer where an entry should be
  before a matching entry.
\<close>

definition routing_entry :: "64 word \<Rightarrow> 64 word \<Rightarrow> 64 word \<Rightarrow> lai_object" where
  "routing_entry address pin gsi =
     Lai_object LAI_PACKAGE 0 []
       [Lai_object LAI_INTEGER address [] [] [] None,
        Lai_object LAI_INTEGER pin [] [] [] None,
        Lai_object LAI_INTEGER 0 [] [] [] None,
        Lai_object LAI_INTEGER gsi [] [] [] None] [] None"

definition prt_wildcard_first :: lai_object where
  "prt_wildcard_first =
     Lai_object LAI_PACKAGE 0 []
       [routing_entry 0x00020000 0 5, routing_entry 0x0001FFFF 0 9, routing_entry 0x00010002 0 10] [] None"

definition prt_exact_first :: lai_object where
  "prt_exact_first =
     Lai_object LAI_PACKAGE 0 []
       [routing_entry 0x00020000 0 5, routing_entry 0x00010002 0 10, routing_entry 0x0001FFFF 0 9] [] None"

definition prt_malformed_first :: lai_object where
  "prt_malformed_first =
     Lai_object LAI_PACKAGE 0 []
       [Lai_object LAI_INTEGER 7 [] [] [] None, routing_entry 0x00010002 0 10] [] None"

text \<open>
  The interrupt pin of a function: the high byte of the 16-bit value that the host reads
  at offset 0x3C of its configuration space.
\<close>

definition interrupt_pin :: "namespace \<Rightarrow> 8 word \<Rightarrow> 8 word \<Rightarrow> 8 word \<Rightarrow> nat" where
  "interrupt_pin ns bus slot func = unat (laihost_pci_read ns bus slot func 0x3C) div 256"

text \<open>The first \<open>n\<close> entries of a resource array are there and of kind IRQ.\<close>

definition irq_prefix :: "lai_constants \<Rightarrow> nat \<Rightarrow> acpi_resource list \<Rightarrow> bool" where
  "irq_prefix c n dest \<longleftrightarrow>
     n \<le> length dest \<and> (\<forall>j<n. type (dest ! j) = ACPI_RESOURCE_IRQ c)"

section \<open>eval.c: the decoders\<close>

subsection \<open>Loads\<close>

lemma unat_byte_less: "unat (b :: 8 word) < 256"
  using unsigned_less [of b, where 'a = nat] by simp

lemma horner_bytes_less: "horner_sum unat 256 (bs :: 8 word list) < 256 ^ length bs"
proof (induction bs)
  case Nil
  show ?case by simp
next
  case (Cons b bs)
  have "unat b + 256 * horner_sum unat 256 bs \<le> 255 + 256 * (256 ^ length bs - 1)"
    using unat_byte_less [of b] Cons.IH by (intro add_mono mult_le_mono) auto
  also have "\<dots> < 256 * 256 ^ length bs"
    by (simp add: algebra_simps)
  finally show ?case by simp
qed

lemma load_le_fits:
  assumes "load_le n data k = Ret v" and "n \<le> 8"
  shows "unat (of_nat v :: 64 word) = v"
proof -
  from assms(1) have v: "v = horner_sum unat 256 (take n (drop k data))"
    and len: "k + n \<le> length data"
    by (auto simp: load_le_def split: if_splits)
  have "v < 256 ^ length (take n (drop k data))"
    unfolding v by (rule horner_bytes_less)
  also have "length (take n (drop k data)) = n"
    using len by simp
  also have "(256 :: nat) ^ n \<le> 256 ^ 8"
    using assms(2) by (intro power_increasing) auto
  finally show ?thesis by (simp add: unat_of_nat)
qed

lemma load_byte: "load_le (Suc 0) (t # b0 # rest) (Suc 0) = Ret (unat b0)"
  by (simp add: load_le_def)

lemma load_word: "load_le 2 (t # b0 # b1 # rest) (Suc 0) = Ret (unat b0 + 256 * unat b1)"
  by (simp add: load_le_def)

lemma load_dword:
  "load_le 4 (t # b0 # b1 # b2 # b3 # rest) (Suc 0)
     = Ret (unat b0 + 256 * (unat b1 + 256 * (unat b2 + 256 * unat b3)))"
  by (simp add: load_le_def)

lemma load_qword:
  "load_le 8 (t # b0 # b1 # b2 # b3 # b4 # b5 # b6 # b7 # rest) (Suc 0)
     = Ret (unat b0 + 256 * (unat b1 + 256 * (unat b2 + 256 * (unat b3 + 256 * (unat b4
              + 256 * (unat b5 + 256 * (unat b6 + 256 * unat b7)))))))"
  by (simp add: load_le_def)

subsection \<open>The integer decoder\<close>

text \<open>
  C7. For every buffer that holds the encoding, \<^verbatim>\<open>lai_eval_integer\<close> returns by tag:
  0 with size 1 for the zero constant, 1 with size 1 for the one constant, all ones with
  size 1 for the ones constant; the little-endian literal that follows the tag with
  sizes 2, 3, 5 and 9 for the byte, word, dword and qword prefixes; and size 0, with the
  destination left alone, for every other tag.
\<close>

theorem lai_eval_integer_by_tag:
  assumes "distinct (switch_labels ops)"
  shows "lai_eval_integer ops (ZERO_OP ops # rest) integer = Ret (0, 1)
    \<and> lai_eval_integer ops (ONE_OP ops # rest) integer = Ret (1, 1)
    \<and> lai_eval_integer ops (ONES_OP ops # rest) integer = Ret (0xFFFFFFFFFFFFFFFF, 1)
    \<and> lai_eval_integer ops (BYTEPREFIX ops # b0 # rest) integer = Ret (ucast b0, 2)
    \<and> (\<exists>v. lai_eval_integer ops (WORDPREFIX ops # b0 # b1 # rest) integer = Ret (v, 3)
          \<and> unat v = unat b0 + 256 * unat b1)
    \<and> (\<exists>v. lai_eval_integer ops (DWORDPREFIX ops # b0 # b1 # b2 # b3 # rest) integer
            = Ret (v, 5)
          \<and> unat v = unat b0 + 256 * unat b1 + 256 ^ 2 * unat b2 + 256 ^ 3 * unat b3)
    \<and> (\<exists>v. lai_eval_integer ops
              (QWORDPREFIX ops # b0 # b1 # b2 # b3 # b4 # b5 # b6 # b7 # rest) integer
            = Ret (v, 9)
          \<and> unat v = unat b0 + 256 * unat b1 + 256 ^ 2 * unat b2 + 256 ^ 3 * unat b3
                + 256 ^ 4 * unat b4 + 256 ^ 5 * unat b5 + 256 ^ 6 * unat b6
                + 256 ^ 7 * unat b7)
    \<and> (tag \<notin> set (switch_labels ops) \<longrightarrow>
          lai_eval_integer ops (tag # rest) integer = Ret (integer, 0))"
proof -
  have d0: "distinct [ZERO_OP ops, ONE_OP ops, ONES_OP ops, BYTEPREFIX ops, WORDPREFIX ops,
      DWORDPREFIX ops, QWORDPREFIX ops]"
    using assms by (simp add: switch_labels_def)
  have d: "ONE_OP ops \<noteq> ZERO_OP ops" "ONES_OP ops \<noteq> ZERO_OP ops"
    "ONES_OP ops \<noteq> ONE_OP ops" "BYTEPREFIX ops \<noteq> ZERO_OP ops"
    "BYTEPREFIX ops \<noteq> ONE_OP ops" "BYTEPREFIX ops \<noteq> ONES_OP ops"
    "WORDPREFIX ops \<noteq> ZERO_OP ops" "WORDPREFIX ops \<noteq> ONE_OP ops"
    "WORDPREFIX ops \<noteq> ONES_OP ops" "WORDPREFIX ops \<noteq> BYTEPREFIX ops"
    "DWORDPREFIX ops \<noteq> ZERO_OP ops" "DWORDPREFIX ops \<noteq> ONE_OP ops"
    "DWORDPREFIX ops \<noteq> ONES_OP ops" "DWORDPREFIX ops \<noteq> BYTEPREFIX ops"
    "DWORDPREFIX ops \<noteq> WORDPREFIX ops" "QWORDPREFIX ops \<noteq> ZERO_OP ops"
    "QWORDPREFIX ops \<noteq> ONE_OP ops" "QWORDPREFIX ops \<noteq> ONES_OP ops"
    "QWORDPREFIX ops \<noteq> BYTEPREFIX ops" "QWORDPREFIX ops \<noteq> WORDPREFIX ops"
    "QWORDPREFIX ops \<noteq> DWORDPREFIX ops"
    using d0 by auto
  have z: "lai_eval_integer ops (ZERO_OP ops # rest) integer = Ret (0, 1)"
    by (simp add: lai_eval_integer_def and_then_def byte_at_def)
  have o: "lai_eval_integer ops (ONE_OP ops # rest) integer = Ret (1, 1)"
    by (simp add: d lai_eval_integer_def and_then_def byte_at_def)
  have os: "lai_eval_integer ops (ONES_OP ops # rest) integer = Ret (0xFFFFFFFFFFFFFFFF, 1)"
    by (simp add: d lai_eval_integer_def and_then_def byte_at_def)
  have b: "lai_eval_integer ops (BYTEPREFIX ops # b0 # rest) integer = Ret (ucast b0, 2)"
    by (simp add: d lai_eval_integer_def and_then_def byte_at_def load_byte)
  have w: "lai_eval_integer ops (WORDPREFIX ops # b0 # b1 # rest) integer
      = Ret (of_nat (unat b0 + 256 * unat b1), 3)"
    by (simp add: d lai_eval_integer_def and_then_def byte_at_def load_word)
  have dw: "lai_eval_integer ops (DWORDPREFIX ops # b0 # b1 # b2 # b3 # rest) integer
      = Ret (of_nat (unat b0 + 256 * (unat b1 + 256 * (unat b2 + 256 * unat b3))), 5)"
    by (simp add: d lai_eval_integer_def and_then_def byte_at_def load_dword)
  have qw: "lai_eval_integer ops
        (QWORDPREFIX ops # b0 # b1 # b2 # b3 # b4 # b5 # b6 # b7 # rest) integer
      = Ret (of_nat (unat b0 + 256 * (unat b1 + 256 * (unat b2 + 256 * (unat b3
           + 256 * (unat b4 + 256 * (unat b5 + 256 * (unat b6 + 256 * unat b7))))))), 9)"
    by (simp add: d lai_eval_integer_def and_then_def byte_at_def load_qword)
  have wv: "unat (of_nat (unat b0 + 256 * unat b1) :: 64 word) = unat b0 + 256 * unat b1"
    using load_le_fits [OF load_word [of undefined b0 b1 "[]"]] by simp
  have dwv: "unat (of_nat (unat b0 + 256 * (unat b1 + 256 * (unat b2 + 256 * unat b3)))
        :: 64 word)
     = unat b0 + 256 * unat b1 + 256 ^ 2 * unat b2 + 256 ^ 3 * unat b3"
    using load_le_fits [OF load_dword [of undefined b0 b1 b2 b3 "[]"]] by simp
  have qwv: "unat (of_nat (unat b0 + 256 * (unat b1 + 256 * (unat b2 + 256 * (unat b3
           + 256 * (unat b4 + 256 * (unat b5 + 256 * (unat b6 + 256 * unat b7)))))))
        :: 64 word)
     = unat b0 + 256 * unat b1 + 256 ^ 2 * unat b2 + 256 ^ 3 * unat b3
         + 256 ^ 4 * unat b4 + 256 ^ 5 * unat b5 + 256 ^ 6 * unat b6 + 256 ^ 7 * unat b7"
    using load_le_fits [OF load_qword [of undefined b0 b1 b2 b3 b4 b5 b6 b7 "[]"]] by simp
  have other: "tag \<notin> set (switch_labels ops) \<longrightarrow>
      lai_eval_integer ops (tag # rest) integer = Ret (integer, 0)"
    by (simp add: lai_eval_integer_def and_then_def byte_at_def switch_labels_def)
  show ?thesis
    using z o os b w wv dw dwv qw qwv other by simp
qed

theorem lai_eval_integer_by_tag_witness:
  "distinct (switch_labels acpi_opcodes)
   \<and> lai_eval_integer acpi_opcodes [0x00] 7 = Ret (0, 1)
   \<and> lai_eval_integer acpi_opcodes [0x01] 7 = Ret (1, 1)
   \<and> lai_eval_integer acpi_opcodes [0xFF] 7 = Ret (0xFFFFFFFFFFFFFFFF, 1)
   \<and> lai_eval_integer acpi_opcodes [0x0A, 0x12] 7 = Ret (0x12, 2)
   \<and> (\<exists>v. lai_eval_integer acpi_opcodes [0x0B, 0x34, 0x12] 7 = Ret (v, 3) \<and> unat v = 0x1234)
   \<and> (\<exists>v. lai_eval_integer acpi_opcodes [0x0C, 0x78, 0x56, 0x34, 0x12] 7 = Ret (v, 5)
         \<and> unat v = 0x12345678)
   \<and> (\<exists>v. lai_eval_integer acpi_opcodes [0x0E, 0x08, 0x07, 0x06, 0x05, 0x04, 0x03, 0x02, 0x01] 7
           = Ret (v, 9)
         \<and> unat v = 0x0102030405060708)
   \<and> 0x70 \<notin> set (switch_labels acpi_opcodes)
   \<and> lai_eval_integer acpi_opcodes [0x70] 7 = Ret (7, 0)"
proof -
  have d: "distinct (switch_labels acpi_opcodes)"
    by (simp add: switch_labels_def acpi_opcodes_def)
  have n: "0x70 \<notin> set (switch_labels acpi_opcodes)"
    by (simp add: switch_labels_def acpi_opcodes_def)
  show ?thesis
    using d n
      lai_eval_integer_by_tag [OF d, where rest = "[]" and integer = 7 and tag = "0x70"
        and ?b0.0 = "0x12"]
      lai_eval_integer_by_tag [OF d, where rest = "[]" and integer = 7 and tag = "0x70"
        and ?b0.0 = "0x34" and ?b1.0 = "0x12"]
      lai_eval_integer_by_tag [OF d, where rest = "[]" and integer = 7 and tag = "0x70"
        and ?b0.0 = "0x78" and ?b1.0 = "0x56" and ?b2.0 = "0x34" and ?b3.0 = "0x12"]
      lai_eval_integer_by_tag [OF d, where rest = "[]" and integer = 7 and tag = "0x70"
        and ?b0.0 = "0x08" and ?b1.0 = "0x07" and ?b2.0 = "0x06" and ?b3.0 = "0x05"
        and ?b4.0 = "0x04" and ?b5.0 = "0x03" and ?b6.0 = "0x02" and ?b7.0 = "0x01"]
    by (simp add: acpi_opcodes_def)
qed

subsection \<open>The package-size decoder\<close>

lemma and_0F: "(w :: 8 word) AND 0x0F = take_bit 4 w"
  by (simp add: take_bit_eq_mask mask_eq_exp_minus_1)

lemma and_3F: "(w :: 8 word) AND 0x3F = take_bit 6 w"
  by (simp add: take_bit_eq_mask mask_eq_exp_minus_1)

lemma and_3: "(w :: 8 word) AND 3 = take_bit 2 w"
  by (simp add: take_bit_eq_mask mask_eq_exp_minus_1)

text \<open>The shifted byte stays below the sign bit of the \<^verbatim>\<open>int\<close>.\<close>

lemma shifted_byte_eq: "k \<le> 23 \<Longrightarrow> shifted_byte b k = push_bit k (ucast b)"
  unfolding shifted_byte_def
  by (rule bit_word_eqI) (auto simp: bit_simps min_def dest: bit_imp_le_length)

lemma bit_nat_below:
  assumes "(x :: nat) < 2 ^ m" and "bit x n"
  shows "n < m"
proof (rule ccontr)
  assume "\<not> n < m"
  then have "(2 :: nat) ^ m \<le> 2 ^ n"
    by (intro power_increasing) auto
  with assms(1) have "x < 2 ^ n"
    by (rule less_le_trans)
  then have "x div 2 ^ n = 0"
    by (rule div_less)
  with assms(2) show False
    by (simp add: bit_iff_odd)
qed

lemma bytecount_of_lead:
  "selector < 4 \<Longrightarrow>
   drop_bit 6 (push_bit 6 (of_nat selector) OR ucast (take_bit 4 (sz :: 64 word)) :: 8 word)
     AND 3 = of_nat selector"
  unfolding and_3
  by (rule bit_word_eqI) (auto simp: bit_simps dest: bit_nat_below [where m = 2, simplified])

lemma low_nibble_of_lead:
  "ucast ((push_bit 6 (of_nat selector) OR ucast (take_bit 4 (sz :: 64 word)) :: 8 word)
      AND 0x0F) = (take_bit 4 sz :: 64 word)"
  unfolding and_0F
  by (rule bit_word_eqI) (auto simp: bit_simps)

lemma bits_above:
  assumes "take_bit m (sz :: 64 word) = sz" and "bit sz n"
  shows "n < m"
  using assms by (metis bit_take_bit_iff)

lemma next_byte:
  "take_bit a (w :: 64 word) OR push_bit a (ucast (ucast (drop_bit a w) :: 8 word))
     = take_bit (a + 8) w"
proof (rule bit_word_eqI)
  fix n
  assume n: "n < LENGTH(64)"
  show "bit (take_bit a w OR push_bit a (ucast (ucast (drop_bit a w) :: 8 word))) n
      = bit (take_bit (a + 8) w) n"
  proof (cases "n < a")
    case True
    then show ?thesis by (simp add: bit_simps)
  next
    case False
    then have "a + (n - a) = n" by simp
    with False n show ?thesis by (auto simp: bit_simps)
  qed
qed

lemma pkgsize_roundtrip:
  assumes "selector < 4" and "take_bit (pkgsize_bits selector) sz = sz"
  shows "lai_parse_pkgsize (pkgsize_encode selector sz @ rest) = Ret (sz, selector + 1)"
proof -
  consider "selector = 0" | "selector = 1" | "selector = 2" | "selector = 3"
    using assms(1) by linarith
  then show ?thesis
  proof cases
    case 1
    have "ucast (ucast (take_bit 6 sz) AND (0x3F :: 8 word)) = sz"
      unfolding and_3F using assms(2) 1
      by (intro bit_word_eqI) (auto simp: bit_simps pkgsize_bits_def dest: bits_above)
    moreover have "drop_bit 6 (ucast (take_bit 6 sz) :: 8 word) AND 3 = 0"
      unfolding and_3 by (intro bit_word_eqI) (auto simp: bit_simps)
    ultimately show ?thesis using 1
      by (simp add: lai_parse_pkgsize_def pkgsize_encode_def and_then_def byte_at_def)
  next
    case 2
    have t: "take_bit 12 sz = sz"
      using assms(2) 2 by (simp add: pkgsize_bits_def)
    have "take_bit 4 sz OR push_bit 4 (ucast (ucast (drop_bit 4 sz) :: 8 word))
        = take_bit 12 sz"
      by (simp add: next_byte [of 4, simplified])
    then show ?thesis
      using 2 t bytecount_of_lead [of 1 sz] low_nibble_of_lead [of 1 sz]
      by (simp add: lai_parse_pkgsize_def pkgsize_encode_def and_then_def byte_at_def
            shifted_byte_eq)
  next
    case 3
    have t: "take_bit 20 sz = sz"
      using assms(2) 3 by (simp add: pkgsize_bits_def)
    have "take_bit 4 sz OR push_bit 4 (ucast (ucast (drop_bit 4 sz) :: 8 word))
           OR push_bit 12 (ucast (ucast (drop_bit 12 sz) :: 8 word)) = take_bit 20 sz"
      by (simp add: next_byte [of 4, simplified] next_byte [of 12, simplified]
            flip: or.assoc)
    then show ?thesis
      using 3 t bytecount_of_lead [of 2 sz] low_nibble_of_lead [of 2 sz]
      by (simp add: lai_parse_pkgsize_def pkgsize_encode_def and_then_def byte_at_def
            shifted_byte_eq upt_rec)
  next
    case 4
    have t: "take_bit 28 sz = sz"
      using assms(2) 4 by (simp add: pkgsize_bits_def)
    have "take_bit 4 sz OR push_bit 4 (ucast (ucast (drop_bit 4 sz) :: 8 word))
           OR push_bit 12 (ucast (ucast (drop_bit 12 sz) :: 8 word))
           OR push_bit 20 (ucast (ucast (drop_bit 20 sz) :: 8 word)) = take_bit 28 sz"
      by (simp add: next_byte [of 4, simplified] next_byte [of 12, simplified]
            next_byte [of 20, simplified] flip: or.assoc)
    then show ?thesis
      using 4 t bytecount_of_lead [of 3 sz] low_nibble_of_lead [of 3 sz]
      by (simp add: lai_parse_pkgsize_def pkgsize_encode_def and_then_def byte_at_def
            shifted_byte_eq upt_rec)
  qed
qed

lemma selector_of_byte: "drop_bit 6 (d0 :: 8 word) AND 3 = drop_bit 6 d0"
  unfolding and_3
  by (rule bit_word_eqI) (auto simp: bit_simps dest: bit_imp_le_length)

lemma selector_less: "unat (drop_bit 6 (d0 :: 8 word)) < 4"
proof -
  have "unat (drop_bit 6 d0) = unat d0 div 2 ^ 6"
    by (simp add: drop_bit_eq_div unat_div)
  moreover have "unat d0 < 256"
    by (rule unat_byte_less)
  ultimately show ?thesis by simp
qed

lemma byte_below_4:
  assumes "unat (w :: 8 word) < 4"
  shows "w = 0 \<or> w = 1 \<or> w = 2 \<or> w = 3"
proof -
  have "unat w = 0 \<or> unat w = 1 \<or> unat w = 2 \<or> unat w = 3"
    using assms by linarith
  then show ?thesis
    by (auto simp: word_unat_eq_iff)
qed

lemma pkgsize_consumed:
  assumes "unat (drop_bit 6 d0) < length (d0 # rest)"
  shows "\<exists>sz. lai_parse_pkgsize (d0 # rest) = Ret (sz, unat (drop_bit 6 d0) + 1)"
proof -
  from byte_below_4 [OF selector_less [of d0]]
  consider "drop_bit 6 d0 = 0" | "drop_bit 6 d0 = 1" | "drop_bit 6 d0 = 2" | "drop_bit 6 d0 = 3"
    by blast
  then show ?thesis
  proof cases
    case 1
    then show ?thesis
      by (simp add: lai_parse_pkgsize_def selector_of_byte and_then_def byte_at_def)
  next
    case 2
    with assms show ?thesis
      by (auto simp: lai_parse_pkgsize_def selector_of_byte and_then_def byte_at_def)
  next
    case 3
    with assms show ?thesis
      by (auto simp: lai_parse_pkgsize_def selector_of_byte and_then_def byte_at_def)
  next
    case 4
    with assms show ?thesis
      by (auto simp: lai_parse_pkgsize_def selector_of_byte and_then_def byte_at_def)
  qed
qed

text \<open>
  C8. Every size that fits the encoding selected (6 bits for selector 0, 12, 20 and 28
  bits for selectors 1, 2 and 3), encoded by the layout of the specification and decoded
  by \<^verbatim>\<open>lai_parse_pkgsize\<close>, comes back with the selector (the function returns
  selector + 1). And on every byte sequence that holds the selector + 1 bytes of its
  encoding the function returns selector + 1, between 1 and 4: it has no failure result.
\<close>

theorem lai_parse_pkgsize_roundtrip:
  "(selector < 4 \<and> sz < 2 ^ pkgsize_bits selector \<longrightarrow>
      lai_parse_pkgsize (pkgsize_encode selector sz @ rest) = Ret (sz, selector + 1))
   \<and> (unat (drop_bit 6 d0) < length (d0 # data) \<longrightarrow>
        (\<exists>sz'. lai_parse_pkgsize (d0 # data) = Ret (sz', unat (drop_bit 6 d0) + 1))
        \<and> 1 \<le> unat (drop_bit 6 d0) + 1 \<and> unat (drop_bit 6 d0) + 1 \<le> 4)"
proof (intro conjI impI)
  assume a: "selector < 4 \<and> sz < 2 ^ pkgsize_bits selector"
  then have "take_bit (pkgsize_bits selector) sz = sz"
    by (simp add: take_bit_eq_mask less_mask_eq)
  with a show "lai_parse_pkgsize (pkgsize_encode selector sz @ rest) = Ret (sz, selector + 1)"
    by (simp add: pkgsize_roundtrip)
next
  assume "unat (drop_bit 6 d0) < length (d0 # data)"
  then show "\<exists>sz'. lai_parse_pkgsize (d0 # data) = Ret (sz', unat (drop_bit 6 d0) + 1)"
    by (rule pkgsize_consumed)
next
  show "1 \<le> unat (drop_bit 6 d0) + 1"
    by simp
next
  show "unat (drop_bit 6 d0) + 1 \<le> 4"
    using selector_less [of d0] by simp
qed

theorem lai_parse_pkgsize_roundtrip_witness:
  "(0 :: 64 word) < 2 ^ pkgsize_bits 0 \<and> lai_parse_pkgsize (pkgsize_encode 0 0) = Ret (0, 1)
   \<and> (63 :: 64 word) < 2 ^ pkgsize_bits 0 \<and> lai_parse_pkgsize (pkgsize_encode 0 63) = Ret (63, 1)
   \<and> (64 :: 64 word) < 2 ^ pkgsize_bits 1 \<and> lai_parse_pkgsize (pkgsize_encode 1 64) = Ret (64, 2)
   \<and> (4095 :: 64 word) < 2 ^ pkgsize_bits 1
   \<and> lai_parse_pkgsize (pkgsize_encode 1 4095) = Ret (4095, 2)
   \<and> (4096 :: 64 word) < 2 ^ pkgsize_bits 2
   \<and> lai_parse_pkgsize (pkgsize_encode 2 4096) = Ret (4096, 3)
   \<and> (1048575 :: 64 word) < 2 ^ pkgsize_bits 2
   \<and> lai_parse_pkgsize (pkgsize_encode 2 1048575) = Ret (1048575, 3)
   \<and> (1048576 :: 64 word) < 2 ^ pkgsize_bits 3
   \<and> lai_parse_pkgsize (pkgsize_encode 3 1048576) = Ret (1048576, 4)
   \<and> (268435455 :: 64 word) < 2 ^ pkgsize_bits 3
   \<and> lai_parse_pkgsize (pkgsize_encode 3 268435455) = Ret (268435455, 4)
   \<and> unat (drop_bit 6 (0xC5 :: 8 word)) < length [0xC5, 0xFF, 0x01, 0x02 :: 8 word]
   \<and> (\<exists>sz'. lai_parse_pkgsize [0xC5, 0xFF, 0x01, 0x02] = Ret (sz', 4))"
proof -
  have b: "(0 :: 64 word) < 2 ^ pkgsize_bits 0" "(63 :: 64 word) < 2 ^ pkgsize_bits 0"
    "(64 :: 64 word) < 2 ^ pkgsize_bits 1" "(4095 :: 64 word) < 2 ^ pkgsize_bits 1"
    "(4096 :: 64 word) < 2 ^ pkgsize_bits 2" "(1048575 :: 64 word) < 2 ^ pkgsize_bits 2"
    "(1048576 :: 64 word) < 2 ^ pkgsize_bits 3" "(268435455 :: 64 word) < 2 ^ pkgsize_bits 3"
    by (simp_all add: pkgsize_bits_def)
  have s: "drop_bit 6 (0xC5 :: 8 word) = 3"
    by (simp add: drop_bit_eq_div)
  note r = lai_parse_pkgsize_roundtrip [where rest = "[]" and ?d0.0 = "0xC5"
      and data = "[0xFF, 0x01, 0x02]"]
  show ?thesis
    using b s r [where selector = 0 and sz = 0] r [where selector = 0 and sz = 63]
      r [where selector = 1 and sz = 64] r [where selector = 1 and sz = 4095]
      r [where selector = 2 and sz = 4096] r [where selector = 2 and sz = 1048575]
      r [where selector = 3 and sz = 1048576] r [where selector = 3 and sz = 268435455]
    by simp
qed

subsection \<open>The package element fetch\<close>

text \<open>
  C10. A call of \<^verbatim>\<open>lai_eval_package\<close> fails exactly when the source is not a package
  or the index is not below the package length, and a call that fails leaves the
  caller's destination object as it was.
\<close>

theorem lai_eval_package_failure_keeps_destination:
  "(fst (lai_eval_package package index destination) \<noteq> 0
      \<longleftrightarrow> o_type package \<noteq> LAI_PACKAGE \<or> length (o_package package) \<le> index)
   \<and> (fst (lai_eval_package package index destination) \<noteq> 0
      \<longrightarrow> snd (lai_eval_package package index destination) = destination)"
  by (simp add: lai_eval_package_def)

theorem lai_eval_package_failure_keeps_destination_witness:
  "fst (lai_eval_package (Lai_object LAI_INTEGER 5 [] [] [] None) 0
          (Lai_object LAI_STRING 0 ''kept'' [] [] None)) \<noteq> 0
   \<and> snd (lai_eval_package (Lai_object LAI_INTEGER 5 [] [] [] None) 0
          (Lai_object LAI_STRING 0 ''kept'' [] [] None))
       = Lai_object LAI_STRING 0 ''kept'' [] [] None
   \<and> fst (lai_eval_package (Lai_object LAI_PACKAGE 0 [] [zero_object] [] None) 1
          (Lai_object LAI_STRING 0 ''kept'' [] [] None)) \<noteq> 0
   \<and> snd (lai_eval_package (Lai_object LAI_PACKAGE 0 [] [zero_object] [] None) 1
          (Lai_object LAI_STRING 0 ''kept'' [] [] None))
       = Lai_object LAI_STRING 0 ''kept'' [] [] None"
  using
    lai_eval_package_failure_keeps_destination
      [of "Lai_object LAI_INTEGER 5 [] [] [] None" 0
          "Lai_object LAI_STRING 0 ''kept'' [] [] None"]
    lai_eval_package_failure_keeps_destination
      [of "Lai_object LAI_PACKAGE 0 [] [zero_object] [] None" 1
          "Lai_object LAI_STRING 0 ''kept'' [] [] None"]
  by simp

subsection \<open>Hexadecimal digits\<close>

text \<open>
  C4. The claim is that \<^verbatim>\<open>char_to_hex\<close> returns 0 on every character that is not a
  hexadecimal digit. The first test of the function has no lower bound: on the slash,
  the character just below the digit zero, it returns 0xFF, and on the space 0xF0.
\<close>

theorem char_to_hex_below_digits:
  "char_to_hex CHR ''/'' = 0xFF \<and> char_to_hex CHR '' '' = 0xF0"
  by (simp add: char_to_hex_def char_value_def)

text \<open>Above the digit nine the function does return 0 on what is not a digit.\<close>

lemma char_to_hex_above_digits:
  assumes "char_value CHR ''9'' < char_value c" and "\<not> is_hex_upper c" and "\<not> is_hex_lower c"
  shows "char_to_hex c = 0"
proof -
  have "(of_char c :: int) < 256"
    using pos_mod_bound [of 256 "of_char c"] by simp
  then have "char_value c = int (of_char c)"
    using assms(1) by (simp add: char_value_def of_nat_of_char split: if_splits)
  then show ?thesis
    using assms by (auto simp: char_to_hex_def is_hex_upper_def is_hex_lower_def char_value_def)
qed

subsection \<open>The EISA identifier\<close>

lemma of_char_int: "(of_char c :: int) = int (of_char c)"
  by (simp add: of_nat_of_char)

lemma letter_code_fits_code:
  assumes "letter_code_fits c"
  shows "char_value c - 0x40 = int (letter_code c) \<and> letter_code c < 32"
  using assms unfolding letter_code_fits_def
  by (auto simp: char_value_def letter_code_def of_char_int)

lemma upper_letter_fits: "is_upper_letter c \<Longrightarrow> letter_code_fits c"
  by (simp add: is_upper_letter_def letter_code_fits_def)

lemma hex_digit_not_below: "is_hex_digit c \<Longrightarrow> not_below_digits c"
  by (auto simp: is_hex_digit_def is_digit_def is_hex_upper_def is_hex_lower_def
      not_below_digits_def)

lemma not_below_char_to_hex:
  assumes "not_below_digits c"
  shows "char_to_hex c = of_nat (hex_digit_value c) \<and> hex_digit_value c < 16"
proof -
  define n :: nat where "n = of_char c"
  have r: "48 \<le> n" "n < 128"
    using assms by (simp_all add: not_below_digits_def n_def)
  have cv: "char_value c = int n"
    using r by (simp add: char_value_def of_char_int n_def)
  consider "n \<le> 57" | "65 \<le> n \<and> n \<le> 70" | "97 \<le> n \<and> n \<le> 102"
    | "57 < n \<and> \<not> (65 \<le> n \<and> n \<le> 70) \<and> \<not> (97 \<le> n \<and> n \<le> 102)"
    by linarith
  then show ?thesis
  proof cases
    case 1
    have h: "hex_digit_value c = n - 48"
      using 1 r by (simp add: hex_digit_value_def is_digit_def n_def)
    have "char_to_hex c = of_nat (hex_digit_value c)" using 1 r cv h
      by (simp add: char_to_hex_def char_value_def of_nat_diff)
    moreover have "hex_digit_value c < 16" using 1 h by arith
    ultimately show ?thesis by simp
  next
    case 2
    have h: "hex_digit_value c = n - 65 + 10"
      using 2 by (simp add: hex_digit_value_def is_digit_def is_hex_upper_def n_def)
    have "char_to_hex c = of_nat (hex_digit_value c)" using 2 cv h
      by (simp add: char_to_hex_def char_value_def of_nat_diff)
    moreover have "hex_digit_value c < 16" using 2 h by arith
    ultimately show ?thesis by simp
  next
    case 3
    have h: "hex_digit_value c = n - 97 + 10"
      using 3 by (simp add: hex_digit_value_def is_digit_def is_hex_upper_def is_hex_lower_def n_def)
    have "char_to_hex c = of_nat (hex_digit_value c)" using 3 cv h
      by (simp add: char_to_hex_def char_value_def of_nat_diff)
    moreover have "hex_digit_value c < 16" using 3 h by arith
    ultimately show ?thesis by simp
  next
    case 4
    have k: "\<not> is_digit c" "\<not> is_hex_upper c" "\<not> is_hex_lower c"
      using 4 by (simp_all add: is_digit_def is_hex_upper_def is_hex_lower_def n_def)
    have "char_value CHR ''9'' < char_value c"
      using 4 cv by (simp add: char_value_def)
    then have "char_to_hex c = 0"
      using k by (simp add: char_to_hex_above_digits)
    moreover have "hex_digit_value c = 0"
      using k by (simp add: hex_digit_value_def)
    ultimately show ?thesis by simp
  qed
qed

lemma shl_small: "x < 32 \<Longrightarrow> k \<le> 26 \<Longrightarrow> shl_int (int x) k = Ret (int x * 2 ^ k)"
proof -
  assume x: "x < 32" and k: "k \<le> 26"
  have "int x * 2 ^ k \<le> 31 * 2 ^ 26"
    using x k by (intro mult_mono power_increasing) auto
  then show ?thesis using k by (simp add: shl_int_def)
qed

lemma take_bit_of_small:
  assumes "x < 2 ^ m"
  shows "take_bit m (of_nat x :: 32 word) = of_nat x"
proof -
  have "take_bit m x = x" using assms by (simp add: take_bit_nat_eq_self_iff)
  then show ?thesis by (metis of_nat_take_bit)
qed

lemma ucast_and_mask32: "(ucast (w :: 32 word) :: 64 word) AND 0xFFFFFFFF = ucast w"
proof -
  have m: "(0xFFFFFFFF :: 64 word) = mask 32" by (simp add: mask_eq_exp_minus_1)
  show ?thesis
    unfolding m by (rule bit_word_eqI) (auto simp: bit_simps dest: bit_imp_le_length)
qed

lemma uint_hex: "h < 16 \<Longrightarrow> uint (of_nat h :: 8 word) = int h"
  by (simp add: uint_nat unat_of_nat)

lemma field_bits:
  assumes "take_bit m (w :: 32 word) = w" and "bit w n"
  shows "n < m"
  using assms by (metis bit_take_bit_iff)

lemma cat_take: "take_bit a (push_bit a hi OR lo) = take_bit a (lo :: 32 word)"
  by (rule bit_word_eqI) (auto simp: bit_simps)

lemma cat_drop:
  assumes "take_bit a lo = lo" and "take_bit (32 - a) hi = hi"
  shows "drop_bit a (push_bit a hi OR lo) = (hi :: 32 word)"
proof (rule bit_word_eqI)
  fix n assume n: "n < LENGTH(32)"
  have lo: "\<not> bit lo (a + n)"
    using field_bits [OF assms(1), of "a + n"] by auto
  have hi: "bit hi n \<Longrightarrow> a + n < 32"
    using field_bits [OF assms(2), of n] by auto
  show "bit (drop_bit a (push_bit a hi OR lo)) n = bit hi n"
    using lo hi n by (auto simp: bit_simps)
qed

lemma cat_bound:
  assumes "take_bit a lo = lo" and "take_bit m hi = hi"
  shows "take_bit (m + a) (push_bit a hi OR lo) = (push_bit a hi OR lo :: 32 word)"
proof (rule bit_word_eqI)
  fix n assume n: "n < LENGTH(32)"
  have lo: "bit lo n \<Longrightarrow> n < a"
    using field_bits [OF assms(1), of n] by auto
  have hi: "bit hi (n - a) \<Longrightarrow> n - a < m"
    using field_bits [OF assms(2), of "n - a"] by auto
  show "bit (take_bit (m + a) (push_bit a hi OR lo)) n = bit (push_bit a hi OR lo) n"
    using lo hi n by (auto simp: bit_simps)
qed

lemma bswap32_pieces:
  "bswap32 w = take_bit 8 (drop_bit 24 w) OR push_bit 16 (take_bit 8 (drop_bit 8 w))
     OR push_bit 8 (take_bit 8 (drop_bit 16 w)) OR push_bit 24 (take_bit 8 w)"
proof -
  have m: "(0xFF :: 32 word) = mask 8" "(0xFF0000 :: 32 word) = push_bit 16 (mask 8)"
    "(0xFF00 :: 32 word) = push_bit 8 (mask 8)" "(0xFF000000 :: 32 word) = push_bit 24 (mask 8)"
    by (simp_all add: mask_eq_exp_minus_1 push_bit_eq_mult)
  show ?thesis
    unfolding bswap32_def m
    by (rule bit_word_eqI) (auto simp: bit_simps)
qed

lemma cat_drop':
  assumes "take_bit a lo = lo" and "take_bit m hi = hi" and "m + a \<le> 32"
  shows "drop_bit a (push_bit a hi OR lo) = (hi :: 32 word)"
proof (rule cat_drop [OF assms(1)])
  show "take_bit (32 - a) hi = hi"
  proof (rule bit_word_eqI)
    fix n assume "n < LENGTH(32)"
    have "bit hi n \<Longrightarrow> n < 32 - a"
      using field_bits [OF assms(2), of n] assms(3) by auto
    then show "bit (take_bit (32 - a) hi) n = bit hi n"
      by (auto simp: bit_simps)
  qed
qed

lemma packed_fields:
  fixes l0 l1 l2 h3 h4 h5 h6 :: "32 word"
  assumes l0: "take_bit 5 l0 = l0" and l1: "take_bit 5 l1 = l1" and l2: "take_bit 5 l2 = l2"
    and h3: "take_bit 4 h3 = h3" and h4: "take_bit 4 h4 = h4" and h5: "take_bit 4 h5 = h5"
    and h6: "take_bit 4 h6 = h6"
  defines "packed \<equiv> push_bit 26 l0 OR push_bit 21 l1 OR push_bit 16 l2 OR push_bit 12 h3
      OR push_bit 8 h4 OR push_bit 4 h5 OR h6"
  shows "drop_bit 26 packed = l0 \<and> take_bit 5 (drop_bit 21 packed) = l1
    \<and> take_bit 5 (drop_bit 16 packed) = l2 \<and> take_bit 4 (drop_bit 12 packed) = h3
    \<and> take_bit 4 (drop_bit 8 packed) = h4 \<and> take_bit 4 (drop_bit 4 packed) = h5
    \<and> take_bit 4 packed = h6"
proof -
  define P1 where "P1 = push_bit 5 l0 OR l1"
  define P2 where "P2 = push_bit 5 P1 OR l2"
  define P3 where "P3 = push_bit 4 P2 OR h3"
  define P4 where "P4 = push_bit 4 P3 OR h4"
  define P5 where "P5 = push_bit 4 P4 OR h5"
  have flat: "packed = push_bit 4 P5 OR h6"
    by (simp add: packed_def P1_def P2_def P3_def P4_def P5_def or.assoc)
  have b1: "take_bit 10 P1 = P1"
    unfolding P1_def using cat_bound [OF l1 l0] by simp
  have b2: "take_bit 15 P2 = P2"
    unfolding P2_def using cat_bound [OF l2 b1] by simp
  have b3: "take_bit 19 P3 = P3"
    unfolding P3_def using cat_bound [OF h3 b2] by simp
  have b4: "take_bit 23 P4 = P4"
    unfolding P4_def using cat_bound [OF h4 b3] by simp
  have b5: "take_bit 27 P5 = P5"
    unfolding P5_def using cat_bound [OF h5 b4] by simp
  have d6: "drop_bit 4 packed = P5"
    unfolding flat by (rule cat_drop' [OF h6 b5]) simp
  have d5: "drop_bit 4 P5 = P4"
    unfolding P5_def by (rule cat_drop' [OF h5 b4]) simp
  have d4: "drop_bit 4 P4 = P3"
    unfolding P4_def by (rule cat_drop' [OF h4 b3]) simp
  have d3: "drop_bit 4 P3 = P2"
    unfolding P3_def by (rule cat_drop' [OF h3 b2]) simp
  have d2: "drop_bit 5 P2 = P1"
    unfolding P2_def by (rule cat_drop' [OF l2 b1]) simp
  have d1: "drop_bit 5 P1 = l0"
    unfolding P1_def by (rule cat_drop' [OF l1 l0]) simp
  have t6: "take_bit 4 packed = h6"
    unfolding flat using h6 by (simp only: cat_take)
  have t5: "take_bit 4 P5 = h5"
    unfolding P5_def using h5 by (simp only: cat_take)
  have t4: "take_bit 4 P4 = h4"
    unfolding P4_def using h4 by (simp only: cat_take)
  have t3: "take_bit 4 P3 = h3"
    unfolding P3_def using h3 by (simp only: cat_take)
  have t2: "take_bit 5 P2 = l2"
    unfolding P2_def using l2 by (simp only: cat_take)
  have t1: "take_bit 5 P1 = l1"
    unfolding P1_def using l1 by (simp only: cat_take)
  have "drop_bit 8 packed = drop_bit 4 (drop_bit 4 packed)"
    by simp
  then have e8: "drop_bit 8 packed = P4"
    by (simp only: d6 d5)
  have "drop_bit 12 packed = drop_bit 4 (drop_bit 8 packed)"
    by simp
  then have e12: "drop_bit 12 packed = P3"
    by (simp only: e8 d4)
  have "drop_bit 16 packed = drop_bit 4 (drop_bit 12 packed)"
    by simp
  then have e16: "drop_bit 16 packed = P2"
    by (simp only: e12 d3)
  have "drop_bit 21 packed = drop_bit 5 (drop_bit 16 packed)"
    by simp
  then have e21: "drop_bit 21 packed = P1"
    by (simp only: e16 d2)
  have "drop_bit 26 packed = drop_bit 5 (drop_bit 21 packed)"
    by simp
  then have e26: "drop_bit 26 packed = l0"
    by (simp only: e21 d1)
  show ?thesis
    by (simp only: e26 e21 e16 e12 e8 d6 t1 t2 t3 t4 t5 t6 simp_thms)
qed


lemma bswap32_bytes:
  "byte_of (bswap32 w) 0 = byte_of w 3 \<and> byte_of (bswap32 w) 1 = byte_of w 2
   \<and> byte_of (bswap32 w) 2 = byte_of w 1 \<and> byte_of (bswap32 w) 3 = byte_of w 0"
proof -
  have b0: "byte_of (bswap32 w) 0 = byte_of w 3"
    unfolding byte_of_def bswap32_pieces
    by (rule bit_word_eqI) (auto simp: bit_simps)
  have b1: "byte_of (bswap32 w) 1 = byte_of w 2"
    unfolding byte_of_def bswap32_pieces
    by (rule bit_word_eqI) (auto simp: bit_simps)
  have b2: "byte_of (bswap32 w) 2 = byte_of w 1"
    unfolding byte_of_def bswap32_pieces
    by (rule bit_word_eqI) (auto simp: bit_simps)
  have b3: "byte_of (bswap32 w) 3 = byte_of w 0"
    unfolding byte_of_def bswap32_pieces
    by (rule bit_word_eqI) (auto simp: bit_simps)
  show ?thesis using b0 b1 b2 b3 by simp
qed

lemma byte_swap_bswap32: "byte_swap w = bswap32 w"
  unfolding byte_swap_def byte_of_def bswap32_pieces
  by (rule bit_word_eqI) (auto simp: bit_simps)

lemma lai_eisaid_shifts:
  assumes "letter_code_fits c0" and "letter_code_fits c1" and "letter_code_fits c2"
    and "not_below_digits c3" and "not_below_digits c4" and "not_below_digits c5"
    and "not_below_digits c6"
  shows "lai_eisaid object [c0, c1, c2, c3, c4, c5, c6]
    = Ret (set_integer
        (ucast (bswap32 (push_bit 26 (of_nat (letter_code c0)) OR push_bit 21 (of_nat (letter_code c1))
           OR push_bit 16 (of_nat (letter_code c2)) OR push_bit 12 (of_nat (hex_digit_value c3))
           OR push_bit 8 (of_nat (hex_digit_value c4)) OR push_bit 4 (of_nat (hex_digit_value c5))
           OR of_nat (hex_digit_value c6))))
        (set_type LAI_INTEGER object))"
proof -
  note l = letter_code_fits_code [OF assms(1)] letter_code_fits_code [OF assms(2)]
    letter_code_fits_code [OF assms(3)]
  note h = not_below_char_to_hex [OF assms(4)] not_below_char_to_hex [OF assms(5)]
    not_below_char_to_hex [OF assms(6)] not_below_char_to_hex [OF assms(7)]
  have s: "shl_int (int (letter_code c0)) 26 = Ret (int (letter_code c0) * 2 ^ 26)"
    "shl_int (int (letter_code c1)) 21 = Ret (int (letter_code c1) * 2 ^ 21)"
    "shl_int (int (letter_code c2)) 16 = Ret (int (letter_code c2) * 2 ^ 16)"
    "shl_int (int (hex_digit_value c3)) 12 = Ret (int (hex_digit_value c3) * 2 ^ 12)"
    "shl_int (int (hex_digit_value c4)) 8 = Ret (int (hex_digit_value c4) * 2 ^ 8)"
    "shl_int (int (hex_digit_value c5)) 4 = Ret (int (hex_digit_value c5) * 2 ^ 4)"
    using l h by (simp_all add: shl_small)
  have u: "uint (char_to_hex c3) = int (hex_digit_value c3)"
    "uint (char_to_hex c4) = int (hex_digit_value c4)"
    "uint (char_to_hex c5) = int (hex_digit_value c5)"
    using h by (simp_all add: uint_hex)
  have c6: "(ucast (char_to_hex c6) :: 32 word) = of_nat (hex_digit_value c6)"
    using h by (simp add: unsigned_of_nat take_bit_nat_eq_self)
  show ?thesis
    using l c6
    by (simp add: lai_eisaid_def and_then_def s u push_bit_eq_mult ucast_and_mask32)
qed

lemma packed_id_shifts:
  assumes "letter_code_fits c0" and "letter_code_fits c1" and "letter_code_fits c2"
  shows "packed_id [c0, c1, c2, c3, c4, c5, c6]
    = bswap32 (push_bit 26 (of_nat (letter_code c0)) OR push_bit 21 (of_nat (letter_code c1))
        OR push_bit 16 (of_nat (letter_code c2)) OR push_bit 12 (of_nat (hex_digit_value c3))
        OR push_bit 8 (of_nat (hex_digit_value c4)) OR push_bit 4 (of_nat (hex_digit_value c5))
        OR of_nat (hex_digit_value c6))"
proof -
  have t: "take_bit 5 (of_nat (letter_code c0) :: 32 word) = of_nat (letter_code c0)"
    "take_bit 5 (of_nat (letter_code c1) :: 32 word) = of_nat (letter_code c1)"
    "take_bit 5 (of_nat (letter_code c2) :: 32 word) = of_nat (letter_code c2)"
    using assms letter_code_fits_code [of c0] letter_code_fits_code [of c1]
      letter_code_fits_code [of c2]
    by (simp_all add: take_bit_of_small)
  show ?thesis
    by (simp add: packed_id_def packed_word_def byte_swap_bswap32 t)
qed

lemma lai_eisaid_kind:
  assumes "length ident = 7"
  shows "lai_eisaid object ident = UB
    \<or> (\<exists>v. lai_eisaid object ident = Ret (set_integer v (set_type LAI_INTEGER object)))"
  using assms
  by (auto simp: lai_eisaid_def and_then_def Let_def split: outcome.splits)

text \<open>
  The fields of the packed identifier before its bytes are swapped: bit 31 is clear, the
  three letter codes and the four nibbles lie where the specification puts them, and the
  swap reverses the four bytes.
\<close>

lemma packed_word_fields:
  "unat (drop_bit 26 (packed_word ident)) = letter_code (ident ! 0) mod 32
   \<and> unat (take_bit 5 (drop_bit 21 (packed_word ident))) = letter_code (ident ! 1) mod 32
   \<and> unat (take_bit 5 (drop_bit 16 (packed_word ident))) = letter_code (ident ! 2) mod 32
   \<and> unat (take_bit 4 (drop_bit 12 (packed_word ident))) = hex_digit_value (ident ! 3)
   \<and> unat (take_bit 4 (drop_bit 8 (packed_word ident))) = hex_digit_value (ident ! 4)
   \<and> unat (take_bit 4 (drop_bit 4 (packed_word ident))) = hex_digit_value (ident ! 5)
   \<and> unat (take_bit 4 (packed_word ident)) = hex_digit_value (ident ! 6)"
proof -
  define l0 l1 l2 h3 h4 h5 h6 :: "32 word"
    where "l0 = take_bit 5 (of_nat (letter_code (ident ! 0)))"
      and "l1 = take_bit 5 (of_nat (letter_code (ident ! 1)))"
      and "l2 = take_bit 5 (of_nat (letter_code (ident ! 2)))"
      and "h3 = of_nat (hex_digit_value (ident ! 3))"
      and "h4 = of_nat (hex_digit_value (ident ! 4))"
      and "h5 = of_nat (hex_digit_value (ident ! 5))"
      and "h6 = of_nat (hex_digit_value (ident ! 6))"
  note defs = l0_def l1_def l2_def h3_def h4_def h5_def h6_def
  have hb: "hex_digit_value c < 16" for c
    by (auto simp: hex_digit_value_def is_digit_def is_hex_upper_def is_hex_lower_def)
  have tl: "take_bit 5 l0 = l0" "take_bit 5 l1 = l1" "take_bit 5 l2 = l2"
    unfolding defs by simp_all
  have th: "take_bit 4 h3 = h3" "take_bit 4 h4 = h4" "take_bit 4 h5 = h5" "take_bit 4 h6 = h6"
    unfolding defs using hb by (simp_all add: take_bit_of_small)
  have ul: "unat (take_bit 5 (of_nat x :: 32 word)) = x mod 32" for x
  proof -
    have a: "take_bit 5 (of_nat x :: 32 word) = of_nat (take_bit 5 x)"
      by (rule of_nat_take_bit [symmetric])
    have b: "take_bit 5 x = x mod 32"
      by (simp add: take_bit_eq_mod)
    have c: "x mod 32 < 2 ^ 32"
      by (rule less_trans [of _ 32]) simp_all
    show ?thesis
      unfolding a b using c by (simp add: unat_of_nat)
  qed
  have u: "unat l0 = letter_code (ident ! 0) mod 32" "unat l1 = letter_code (ident ! 1) mod 32"
    "unat l2 = letter_code (ident ! 2) mod 32"
    "unat h3 = hex_digit_value (ident ! 3)" "unat h4 = hex_digit_value (ident ! 4)"
    "unat h5 = hex_digit_value (ident ! 5)" "unat h6 = hex_digit_value (ident ! 6)"
    unfolding defs using hb [of "ident ! 3"] hb [of "ident ! 4"] hb [of "ident ! 5"]
      hb [of "ident ! 6"]
    by (simp_all add: ul unat_of_nat)
  have p: "packed_word ident = push_bit 26 l0 OR push_bit 21 l1 OR push_bit 16 l2
      OR push_bit 12 h3 OR push_bit 8 h4 OR push_bit 4 h5 OR h6"
    by (simp add: packed_word_def defs)
  have f: "drop_bit 26 (packed_word ident) = l0
    \<and> take_bit 5 (drop_bit 21 (packed_word ident)) = l1
    \<and> take_bit 5 (drop_bit 16 (packed_word ident)) = l2
    \<and> take_bit 4 (drop_bit 12 (packed_word ident)) = h3
    \<and> take_bit 4 (drop_bit 8 (packed_word ident)) = h4
    \<and> take_bit 4 (drop_bit 4 (packed_word ident)) = h5
    \<and> take_bit 4 (packed_word ident) = h6"
    unfolding p by (rule packed_fields [OF tl th])
  show ?thesis
    using f u by (simp only: simp_thms)
qed

lemma packed_id_bytes:
  "byte_of (packed_id ident) 0 = byte_of (packed_word ident) 3
   \<and> byte_of (packed_id ident) 1 = byte_of (packed_word ident) 2
   \<and> byte_of (packed_id ident) 2 = byte_of (packed_word ident) 1
   \<and> byte_of (packed_id ident) 3 = byte_of (packed_word ident) 0"
  unfolding packed_id_def byte_swap_bswap32 by (rule bswap32_bytes)

text \<open>
  C6. On a string whose length is not 7, \<^verbatim>\<open>lai_eisaid\<close> makes the object a String
  that holds the string; on a string of length 7 the object becomes an Integer (unless a
  shift of the function overflows). When the first three characters have 5-bit letter
  codes (ASCII 0x40 to 0x5F, the upper-case letters among them) and the last four are
  ASCII characters not below the digit zero, the Integer is the packed identifier of the
  specification: 5 bits for each letter code, a nibble for each of the four digits, 0 for
  a character that is no hexadecimal digit, the bytes swapped.
\<close>

theorem lai_eisaid_packs:
  "(length ident \<noteq> 7 \<longrightarrow>
      lai_eisaid object ident = Ret (set_string ident (set_type LAI_STRING object)))
   \<and> (length ident = 7 \<longrightarrow>
      lai_eisaid object ident = UB
      \<or> (\<exists>v. lai_eisaid object ident = Ret (set_integer v (set_type LAI_INTEGER object))))
   \<and> (letter_code_fits c0 \<and> letter_code_fits c1 \<and> letter_code_fits c2
        \<and> not_below_digits c3 \<and> not_below_digits c4 \<and> not_below_digits c5
        \<and> not_below_digits c6 \<longrightarrow>
      lai_eisaid object [c0, c1, c2, c3, c4, c5, c6]
        = Ret (set_integer (ucast (packed_id [c0, c1, c2, c3, c4, c5, c6]))
            (set_type LAI_INTEGER object)))"
proof (intro conjI impI)
  assume "length ident \<noteq> 7"
  then show "lai_eisaid object ident = Ret (set_string ident (set_type LAI_STRING object))"
    by (simp add: lai_eisaid_def)
next
  assume "length ident = 7"
  then show "lai_eisaid object ident = UB
      \<or> (\<exists>v. lai_eisaid object ident = Ret (set_integer v (set_type LAI_INTEGER object)))"
    by (rule lai_eisaid_kind)
next
  assume a: "letter_code_fits c0 \<and> letter_code_fits c1 \<and> letter_code_fits c2
        \<and> not_below_digits c3 \<and> not_below_digits c4 \<and> not_below_digits c5
        \<and> not_below_digits c6"
  then show "lai_eisaid object [c0, c1, c2, c3, c4, c5, c6]
        = Ret (set_integer (ucast (packed_id [c0, c1, c2, c3, c4, c5, c6]))
            (set_type LAI_INTEGER object))"
    by (simp add: lai_eisaid_shifts packed_id_shifts)
qed

theorem lai_eisaid_packs_witness:
  "length ''ACPI'' \<noteq> 7
   \<and> lai_eisaid zero_object ''ACPI'' = Ret (Lai_object LAI_STRING 0 ''ACPI'' [] [] None)
   \<and> letter_code_fits CHR ''P'' \<and> letter_code_fits CHR ''N''
   \<and> not_below_digits CHR ''0'' \<and> not_below_digits CHR ''A''
   \<and> not_below_digits CHR ''3'' \<and> not_below_digits CHR ''G''
   \<and> lai_eisaid zero_object ''PNP0A03''
       = Ret (Lai_object LAI_INTEGER (ucast (packed_id ''PNP0A03'')) [] [] [] None)
   \<and> packed_id ''PNP0A03'' = 0x030AD041
   \<and> lai_eisaid zero_object ''PNP0A0G''
       = Ret (Lai_object LAI_INTEGER (ucast (packed_id ''PNP0A0G'')) [] [] [] None)
   \<and> packed_id ''PNP0A0G'' = 0x000AD041"
proof -
  have c: "letter_code_fits CHR ''P''" "letter_code_fits CHR ''N''"
    "not_below_digits CHR ''0''" "not_below_digits CHR ''A''"
    "not_below_digits CHR ''3''" "not_below_digits CHR ''G''"
    by (simp_all add: letter_code_fits_def not_below_digits_def)
  have v: "packed_id ''PNP0A03'' = 0x030AD041" "packed_id ''PNP0A0G'' = 0x000AD041"
    by code_simp+
  show ?thesis
    using c v
      lai_eisaid_packs [where ident = "''PNP0A03''" and object = zero_object
        and ?c0.0 = "CHR ''P''" and ?c1.0 = "CHR ''N''" and ?c2.0 = "CHR ''P''"
        and ?c3.0 = "CHR ''0''" and ?c4.0 = "CHR ''A''" and ?c5.0 = "CHR ''0''"
        and ?c6.0 = "CHR ''3''"]
      lai_eisaid_packs [where ident = "''ACPI''" and object = zero_object
        and ?c0.0 = "CHR ''P''" and ?c1.0 = "CHR ''N''" and ?c2.0 = "CHR ''P''"
        and ?c3.0 = "CHR ''0''" and ?c4.0 = "CHR ''A''" and ?c5.0 = "CHR ''0''"
        and ?c6.0 = "CHR ''G''"]
    by (simp add: zero_object_def)
qed

text \<open>
  C6 as it is written, for every string of length 7, fails outside that form. In
  \<^verbatim>\<open>PnP0A03\<close> the code of the second character takes 6 bits, and the sixth falls
  into the field of the first letter, which then reads 17 where the letter has the code
  16. In \<^verbatim>\<open>PNP/A03\<close> the character before the digit zero decodes to 0xFF and covers the
  field of the third letter. Both are Integers, and neither is the packed identifier.
\<close>

theorem lai_eisaid_outside_format_counterexample:
  "length ''PnP0A03'' = 7
   \<and> lai_eisaid zero_object ''PnP0A03''
       = Ret (Lai_object LAI_INTEGER 0x030AD045 [] [] [] None)
   \<and> packed_id ''PnP0A03'' = 0x030AD041
   \<and> lai_eisaid zero_object ''PnP0A03''
       \<noteq> Ret (Lai_object LAI_INTEGER (ucast (packed_id ''PnP0A03'')) [] [] [] None)
   \<and> length ''PNP/A03'' = 7
   \<and> lai_eisaid zero_object ''PNP/A03''
       = Ret (Lai_object LAI_INTEGER 0x03FADF41 [] [] [] None)
   \<and> packed_id ''PNP/A03'' = 0x030AD041
   \<and> lai_eisaid zero_object ''PNP/A03''
       \<noteq> Ret (Lai_object LAI_INTEGER (ucast (packed_id ''PNP/A03'')) [] [] [] None)"
  by code_simp

section \<open>resource.c: the descriptor parser\<close>

subsection \<open>The small IRQ descriptor\<close>

lemma mask_test: "i < 16 \<Longrightarrow> ((ucast (m :: 16 word) :: 32 word) AND 2 ^ i = 0) = (\<not> bit m i)"
proof -
  assume i: "i < 16"
  have "((ucast m :: 32 word) AND 2 ^ i = 0) = (\<not> bit (ucast m :: 32 word) i)"
    by (rule and_exp_eq_0_iff_not_bit)
  moreover have "bit (ucast m :: 32 word) i = bit m i"
    using i by (simp add: bit_simps)
  ultimately show ?thesis by simp
qed

lemma mask_clear:
  "i < 16 \<Longrightarrow> bit (ucast ((ucast (m :: 16 word) :: 32 word) AND NOT (2 ^ i)) :: 16 word) j
     = (bit m j \<and> j \<noteq> i)"
  by (auto simp: bit_simps dest: bit_imp_le_length)

lemma mask_nonzero_index:
  assumes "(m :: 16 word) \<noteq> 0" and "\<forall>j<i. \<not> bit m j"
  shows "i < 16"
proof -
  from assms(1) obtain j where j: "bit m j"
    by (auto simp: bit_eq_iff)
  then have "j < 16" by (auto dest: bit_imp_le_length)
  moreover have "i \<le> j" using j assms(2) by (meson not_le)
  ultimately show ?thesis by simp
qed

lemma small_irq_loop_lines:
  assumes "\<forall>j<i. \<not> bit m j"
    and "count + length (filter (bit m) [i..<16]) \<le> length dest"
    and "m \<noteq> 0 \<Longrightarrow> (if data_size \<ge> 3 then byte_at data 3
          else Ret (ACPI_IRQ_ACTIVE_HIGH c OR ACPI_IRQ_EDGE c OR ACPI_IRQ_EXCLUSIVE c)) = Ret flags"
  shows "small_irq_loop c data data_size m i count dest
    = Ret (count + length (filter (bit m) [i..<16]),
           store_irqs c flags (filter (bit m) [i..<16]) count dest)"
  using assms
proof (induction "16 - i" arbitrary: i m count dest)
  case 0
  then have "m = 0"
    using mask_nonzero_index [of m i] by auto
  then show ?case by (subst small_irq_loop.simps) simp
next
  case (Suc n)
  show ?case
  proof (cases "m = 0")
    case True
    then show ?thesis by (subst small_irq_loop.simps) simp
  next
    case False
    have i: "i < 16" using Suc.hyps(2) by simp
    have upt: "[i..<16] = i # [Suc i..<16]"
      using i by (simp add: upt_conv_Cons)
    have fl: "(if data_size \<ge> 3 then byte_at data 3
          else Ret (ACPI_IRQ_ACTIVE_HIGH c OR ACPI_IRQ_EDGE c OR ACPI_IRQ_EXCLUSIVE c)) = Ret flags"
      using Suc.prems(3) False by simp
    show ?thesis
    proof (cases "bit m i")
      case True
      define m' :: "16 word" where "m' = ucast ((ucast m :: 32 word) AND NOT (2 ^ i))"
      define dest' where "dest' = dest[count := (dest ! count)\<lparr>type := ACPI_RESOURCE_IRQ c, base := of_nat i,
                                     irq_flags := flags\<rparr>]"
      have b: "\<And>j. bit m' j = (bit m j \<and> j \<noteq> i)"
        unfolding m'_def using i by (rule mask_clear)
      have same: "filter (bit m') [Suc i..<16] = filter (bit m) [Suc i..<16]"
        by (rule filter_cong) (auto simp: b)
      have room: "count < length dest"
        using Suc.prems(2) True upt by simp
      have w: "write_irq dest count (ACPI_RESOURCE_IRQ c) (of_nat i) flags = Ret dest'"
        using room by (simp add: write_irq_def dest'_def)
      have ih: "small_irq_loop c data data_size m' (Suc i) (count + 1) dest'
        = Ret (count + 1 + length (filter (bit m') [Suc i..<16]),
           store_irqs c flags (filter (bit m') [Suc i..<16]) (count + 1) dest')"
      proof (rule Suc.hyps(1))
        show "n = 16 - Suc i" using Suc.hyps(2) by simp
        show "\<forall>j<Suc i. \<not> bit m' j"
          using Suc.prems(1) by (auto simp: b less_Suc_eq)
        show "count + 1 + length (filter (bit m') [Suc i..<16]) \<le> length dest'"
          using Suc.prems(2) True upt by (simp add: same dest'_def)
        show "m' \<noteq> 0 \<Longrightarrow> (if data_size \<ge> 3 then byte_at data 3
          else Ret (ACPI_IRQ_ACTIVE_HIGH c OR ACPI_IRQ_EDGE c OR ACPI_IRQ_EXCLUSIVE c)) = Ret flags"
          using fl by simp
      qed
      have step: "small_irq_loop c data data_size m i count dest
          = small_irq_loop c data data_size m' (Suc i) (count + 1) dest'"
        using False i True fl w
        by (subst small_irq_loop.simps) (simp add: mask_test m'_def)
      show ?thesis
        unfolding step ih using True upt by (simp add: same dest'_def)
    next
      case nb: False
      have ih: "small_irq_loop c data data_size m (Suc i) count dest
        = Ret (count + length (filter (bit m) [Suc i..<16]),
           store_irqs c flags (filter (bit m) [Suc i..<16]) count dest)"
      proof (rule Suc.hyps(1))
        show "n = 16 - Suc i" using Suc.hyps(2) by simp
        show "\<forall>j<Suc i. \<not> bit m j"
          using Suc.prems(1) nb by (auto simp: less_Suc_eq)
        show "count + length (filter (bit m) [Suc i..<16]) \<le> length dest"
          using Suc.prems(2) nb upt by simp
        show "m \<noteq> 0 \<Longrightarrow> (if data_size \<ge> 3 then byte_at data 3
          else Ret (ACPI_IRQ_ACTIVE_HIGH c OR ACPI_IRQ_EDGE c OR ACPI_IRQ_EXCLUSIVE c)) = Ret flags"
          using fl by simp
      qed
      have step: "small_irq_loop c data data_size m i count dest
          = small_irq_loop c data data_size m (Suc i) count dest"
        using False i nb
        by (subst small_irq_loop.simps) (simp add: mask_test)
      show ?thesis
        unfolding step ih using nb upt by simp
    qed
  qed
qed

lemma length_store_irqs [simp]: "length (store_irqs c flags lines count dest) = length dest"
  by (induction lines arbitrary: count dest) auto

lemma nth_store_irqs:
  assumes "count + length lines \<le> length dest" and "j < length dest"
  shows "store_irqs c flags lines count dest ! j
    = (if count \<le> j \<and> j < count + length lines
       then (dest ! j)\<lparr>type := ACPI_RESOURCE_IRQ c, base := of_nat (lines ! (j - count)),
                        irq_flags := flags\<rparr>
       else dest ! j)"
  using assms
proof (induction lines arbitrary: count dest)
  case Nil
  then show ?case by auto
next
  case (Cons i lines)
  let ?d = "dest[count := (dest ! count)\<lparr>type := ACPI_RESOURCE_IRQ c, base := of_nat i,
                                     irq_flags := flags\<rparr>]"
  have ih: "store_irqs c flags lines (Suc count) ?d ! j
    = (if Suc count \<le> j \<and> j < Suc count + length lines
       then (?d ! j)\<lparr>type := ACPI_RESOURCE_IRQ c, base := of_nat (lines ! (j - Suc count)),
                        irq_flags := flags\<rparr>
       else ?d ! j)"
    using Cons.prems by (intro Cons.IH) auto
  show ?case
  proof (cases "j = count")
    case True
    then show ?thesis using ih Cons.prems by simp
  next
    case False
    then show ?thesis using ih Cons.prems by (auto simp: nth_Cons')
  qed
qed

lemma small_irq_tag:
  assumes "drop_bit 3 (d0 :: 8 word) = ACPI_SMALL_IRQ"
  shows "d0 \<noteq> 0x79" and "d0 AND 0x80 = 0" and "drop_bit 3 d0 \<noteq> ACPI_SMALL_END"
proof -
  show "d0 \<noteq> 0x79" using assms by (auto simp: ACPI_SMALL_IRQ_def drop_bit_eq_div)
  show "drop_bit 3 d0 \<noteq> ACPI_SMALL_END" using assms by (simp add: ACPI_SMALL_IRQ_def ACPI_SMALL_END_def)
  have "\<not> bit d0 7"
  proof
    assume "bit d0 7"
    then have "bit (drop_bit 3 d0) 4" by (simp add: bit_simps)
    then show False using assms by (simp add: ACPI_SMALL_IRQ_def)
  qed
  then show "d0 AND 0x80 = 0"
    using and_exp_eq_0_iff_not_bit [of d0 7] by simp
qed

text \<open>
  C3. At a small IRQ descriptor whose tag, mask bytes and (when the tag announces at
  least three payload bytes) config byte are in the buffer, and with room in the
  destination, \<^verbatim>\<open>lai_read_resource\<close> goes on behind the descriptor with one more
  entry for each set bit of the 16-bit mask: the entries are stored from index
  \<open>count\<close> on in ascending order of the bit index, each of kind IRQ with the bit index
  as base; the flags are the third payload byte when the payload has at least three
  bytes, and active-high, edge-triggered, exclusive otherwise. Nothing else of the
  destination changes.
\<close>

theorem small_irq_descriptor_entries:
  assumes tag: "drop_bit 3 d0 = ACPI_SMALL_IRQ"
    and config: "3 \<le> unat (d0 AND 7) \<longrightarrow> rest \<noteq> []"
    and room: "count + length (irq_lines (of_nat (unat m0 + 256 * unat m1))) \<le> length dest"
  shows "\<exists>dest'.
      lai_read_loop c (d0 # m0 # m1 # rest) count dest
        = lai_read_loop c (drop (unat (d0 AND 7)) (m0 # m1 # rest))
            (count + length (irq_lines (of_nat (unat m0 + 256 * unat m1)))) dest'
      \<and> length dest' = length dest
      \<and> (\<forall>j<length dest. dest' ! j =
            (if count \<le> j \<and> j < count + length (irq_lines (of_nat (unat m0 + 256 * unat m1)))
             then (dest ! j)
               \<lparr>type := ACPI_RESOURCE_IRQ c,
                base := of_nat (irq_lines (of_nat (unat m0 + 256 * unat m1)) ! (j - count)),
                irq_flags := (if 3 \<le> unat (d0 AND 7) then hd rest
                              else ACPI_IRQ_ACTIVE_HIGH c OR ACPI_IRQ_EDGE c
                                     OR ACPI_IRQ_EXCLUSIVE c)\<rparr>
             else dest ! j))"
proof -
  define m :: "16 word" where "m = of_nat (unat m0 + 256 * unat m1)"
  define flags where "flags = (if 3 \<le> unat (d0 AND 7) then hd rest
      else ACPI_IRQ_ACTIVE_HIGH c OR ACPI_IRQ_EDGE c OR ACPI_IRQ_EXCLUSIVE c)"
  define data where "data = d0 # m0 # m1 # rest"
  have fl: "(if unat (d0 AND 7) \<ge> 3 then byte_at data 3
      else Ret (ACPI_IRQ_ACTIVE_HIGH c OR ACPI_IRQ_EDGE c OR ACPI_IRQ_EXCLUSIVE c)) = Ret flags"
    using config by (cases rest) (auto simp: flags_def data_def byte_at_def)
  have inner: "small_irq_loop c data (unat (d0 AND 7)) m 0 count dest
      = Ret (count + length (irq_lines m), store_irqs c flags (irq_lines m) count dest)"
    unfolding irq_lines_def
    using room fl by (intro small_irq_loop_lines) (simp_all add: m_def irq_lines_def)
  have ld: "load_le 2 data (Suc 0) = Ret (unat m0 + 256 * unat m1)"
    unfolding data_def by (rule load_word)
  have step: "lai_read_loop c data count dest
      = lai_read_loop c (drop (unat (d0 AND 7) + 1) data) (count + length (irq_lines m))
          (store_irqs c flags (irq_lines m) count dest)"
    using small_irq_tag [OF tag] tag ld inner
    by (subst lai_read_loop.simps) (simp add: data_def m_def)
  have nth: "\<forall>j<length dest. store_irqs c flags (irq_lines m) count dest ! j =
            (if count \<le> j \<and> j < count + length (irq_lines m)
             then (dest ! j)\<lparr>type := ACPI_RESOURCE_IRQ c,
                base := of_nat (irq_lines m ! (j - count)), irq_flags := flags\<rparr>
             else dest ! j)"
    using room by (auto simp: nth_store_irqs m_def)
  show ?thesis
    using step nth unfolding m_def flags_def data_def
    by (intro exI [of _ "store_irqs c flags (irq_lines m) count dest"]) (simp add: m_def flags_def)
qed

theorem small_irq_descriptor_entries_witness:
  "drop_bit 3 (0x23 :: 8 word) = ACPI_SMALL_IRQ
   \<and> irq_lines (of_nat (unat (0x0A :: 8 word) + 256 * unat (0x00 :: 8 word))) = [1, 3]
   \<and> (\<exists>dest'.
        lai_read_loop example_constants [0x23, 0x0A, 0x00, 0x01, 0x79] 0
            (zero_resources example_constants)
          = lai_read_loop example_constants [0x79] 2 dest'
        \<and> dest' ! 0 = \<lparr>type = 3, base = 1, irq_flags = 0x01\<rparr>
        \<and> dest' ! 1 = \<lparr>type = 3, base = 3, irq_flags = 0x01\<rparr>
        \<and> dest' ! 2 = \<lparr>type = 0, base = 0, irq_flags = 0\<rparr>)
   \<and> lai_read_loop example_constants [0x23, 0x0A, 0x00, 0x01, 0x79] 0
         (zero_resources example_constants)
       = Ret (2, [\<lparr>type = 3, base = 1, irq_flags = 0x01\<rparr>,
                  \<lparr>type = 3, base = 3, irq_flags = 0x01\<rparr>,
                  \<lparr>type = 0, base = 0, irq_flags = 0\<rparr>, \<lparr>type = 0, base = 0, irq_flags = 0\<rparr>])
   \<and> lai_read_loop example_constants [0x22, 0x0A, 0x00, 0x79] 0
         (zero_resources example_constants)
       = Ret (2, [\<lparr>type = 3, base = 1,
                    irq_flags = ACPI_IRQ_ACTIVE_HIGH example_constants
                      OR ACPI_IRQ_EDGE example_constants
                      OR ACPI_IRQ_EXCLUSIVE example_constants\<rparr>,
                  \<lparr>type = 3, base = 3,
                    irq_flags = ACPI_IRQ_ACTIVE_HIGH example_constants
                      OR ACPI_IRQ_EDGE example_constants
                      OR ACPI_IRQ_EXCLUSIVE example_constants\<rparr>,
                  \<lparr>type = 0, base = 0, irq_flags = 0\<rparr>, \<lparr>type = 0, base = 0, irq_flags = 0\<rparr>])"
proof -
  let ?m = "of_nat (unat (0x0A :: 8 word) + 256 * unat (0x00 :: 8 word)) :: 16 word"
  let ?z = "zero_resources example_constants"
  have t: "drop_bit 3 (0x23 :: 8 word) = ACPI_SMALL_IRQ"
    by (simp add: ACPI_SMALL_IRQ_def drop_bit_eq_div)
  have l: "irq_lines ?m = [1, 3]"
    by code_simp
  have l10: "irq_lines (10 :: 16 word) = [1, 3]"
    by code_simp
  have z: "?z = replicate 4 \<lparr>type = 0, base = 0, irq_flags = 0\<rparr>"
    by (simp add: zero_resources_def example_constants_def)
  have s: "unat ((0x23 :: 8 word) AND 7) = 3"
    by code_simp
  have c: "3 \<le> unat ((0x23 :: 8 word) AND 7) \<longrightarrow> [0x01, 0x79 :: 8 word] \<noteq> []"
    by simp
  have r: "0 + length (irq_lines ?m) \<le> length ?z"
    by (simp add: l10 z)
  from small_irq_descriptor_entries [OF t c r, of example_constants]
  obtain dest' where d: "lai_read_loop example_constants [0x23, 0x0A, 0x00, 0x01, 0x79] 0 ?z
        = lai_read_loop example_constants (drop (unat ((0x23 :: 8 word) AND 7)) [0x0A, 0x00, 0x01, 0x79])
            (0 + length (irq_lines ?m)) dest'"
    and n: "\<forall>j<length ?z. dest' ! j =
            (if 0 \<le> j \<and> j < 0 + length (irq_lines ?m)
             then (?z ! j)
               \<lparr>type := ACPI_RESOURCE_IRQ example_constants,
                base := of_nat (irq_lines ?m ! (j - 0)),
                irq_flags := (if 3 \<le> unat ((0x23 :: 8 word) AND 7) then hd [0x01, 0x79]
                              else ACPI_IRQ_ACTIVE_HIGH example_constants
                                     OR ACPI_IRQ_EDGE example_constants
                                     OR ACPI_IRQ_EXCLUSIVE example_constants)\<rparr>
             else ?z ! j)"
    by blast
  have d': "lai_read_loop example_constants [0x23, 0x0A, 0x00, 0x01, 0x79] 0 ?z
        = lai_read_loop example_constants [0x79] 2 dest'"
    using d by (simp add: s l10 flip: numeral_2_eq_2)
  have n0: "dest' ! 0 = \<lparr>type = 3, base = 1, irq_flags = 0x01\<rparr>"
    using n [rule_format, of 0] unfolding z by (simp add: s l10 example_constants_def)
  have n1: "dest' ! 1 = \<lparr>type = 3, base = 3, irq_flags = 0x01\<rparr>"
    using n [rule_format, of 1] unfolding z by (simp add: s l10 example_constants_def)
  have n2: "dest' ! 2 = \<lparr>type = 0, base = 0, irq_flags = 0\<rparr>"
    using n [rule_format, of 2] unfolding z by (simp add: s l10 example_constants_def)
  have run: "lai_read_loop example_constants [0x23, 0x0A, 0x00, 0x01, 0x79] 0 ?z
       = Ret (2, [\<lparr>type = 3, base = 1, irq_flags = 0x01\<rparr>,
                  \<lparr>type = 3, base = 3, irq_flags = 0x01\<rparr>,
                  \<lparr>type = 0, base = 0, irq_flags = 0\<rparr>, \<lparr>type = 0, base = 0, irq_flags = 0\<rparr>])"
    by code_simp
  have dflt: "lai_read_loop example_constants [0x22, 0x0A, 0x00, 0x79] 0 ?z
       = Ret (2, [\<lparr>type = 3, base = 1,
                    irq_flags = ACPI_IRQ_ACTIVE_HIGH example_constants
                      OR ACPI_IRQ_EDGE example_constants
                      OR ACPI_IRQ_EXCLUSIVE example_constants\<rparr>,
                  \<lparr>type = 3, base = 3,
                    irq_flags = ACPI_IRQ_ACTIVE_HIGH example_constants
                      OR ACPI_IRQ_EDGE example_constants
                      OR ACPI_IRQ_EXCLUSIVE example_constants\<rparr>,
                  \<lparr>type = 0, base = 0, irq_flags = 0\<rparr>, \<lparr>type = 0, base = 0, irq_flags = 0\<rparr>])"
    by code_simp
  show ?thesis
    using t l d' n0 n1 n2 run dflt by blast
qed

subsection \<open>Unrecognised descriptors\<close>

lemma and_7: "(w :: 8 word) AND 7 = take_bit 3 w"
  by (simp add: take_bit_eq_mask mask_eq_exp_minus_1)

lemma and_80: "((w :: 8 word) AND 0x80 = 0) = (\<not> bit w 7)"
  using and_exp_eq_0_iff_not_bit [of w 7] by simp

lemma and_FF: "(w :: 8 word) AND 0xFF = w"
proof -
  have m: "(0xFF :: 8 word) = mask 8" by (simp add: mask_eq_exp_minus_1)
  show ?thesis
    unfolding m by (rule bit_word_eqI) (auto simp: bit_simps dest: bit_imp_le_length)
qed

lemma ucast_and_FF: "(ucast (w :: 8 word) :: 64 word) AND 0xFF = ucast w"
proof -
  have m: "(0xFF :: 64 word) = mask 8" by (simp add: mask_eq_exp_minus_1)
  show ?thesis
    unfolding m by (rule bit_word_eqI) (auto simp: bit_simps dest: bit_imp_le_length)
qed

lemma large_size:
  fixes d1 d2 :: "8 word"
  shows "unat ((ucast d1 AND 0xFF) OR shifted_byte (d2 AND 0xFF) 8 :: 64 word) = unat d1 + 256 * unat d2"
proof -
  have "(ucast d1 :: 64 word) + push_bit 8 (ucast d2) = ucast d1 OR push_bit 8 (ucast d2)"
  proof (rule disjunctive_add)
    fix n
    show "\<not> bit (ucast d1 :: 64 word) n \<or> \<not> bit (push_bit 8 (ucast d2) :: 64 word) n"
    proof (cases "n < 8")
      case True
      then show ?thesis by (simp add: bit_simps)
    next
      case False
      then show ?thesis using bit_imp_le_length [of d1 n] by (auto simp: bit_simps)
    qed
  qed
  moreover have "unat ((ucast d1 :: 64 word) + push_bit 8 (ucast d2)) = unat d1 + 256 * unat d2"
    using unat_byte_less [of d1] unat_byte_less [of d2]
    by (simp add: unat_word_ariths push_bit_eq_mult unsigned_ucast_eq take_bit_nat_eq_self)
  ultimately show ?thesis
    by (simp add: ucast_and_FF and_FF shifted_byte_eq)
qed

lemma drop_3_more: "drop (n + 3) (a # b # c # xs) = drop n xs"
proof -
  have "n + 3 = Suc (Suc (Suc n))"
    by simp
  show ?thesis
    unfolding \<open>n + 3 = Suc (Suc (Suc n))\<close> by simp
qed

lemma unknown_descriptor_loop:
  assumes "unknown_before_end data"
  shows "lai_read_loop c data count dest = UB
    \<or> (\<exists>dest'. lai_read_loop c data count dest = Ret (0, dest'))"
  using assms
proof (induction data arbitrary: count dest rule: length_induct)
  case (1 data)
  note IH = "1.IH" [rule_format]
  from "1.prems" obtain t rest where data: "data = t # rest"
    by (cases data) (auto simp: unknown_before_end.simps)
  have nt: "t \<noteq> 0x79"
    using "1.prems" by (auto simp: data unknown_before_end.simps)
  show ?case
  proof (cases "bit t 7")
    case small: False
    have ne: "drop_bit 3 t \<noteq> ACPI_SMALL_END"
      using "1.prems" nt small by (auto simp: data unknown_before_end.simps)
    show ?thesis
    proof (cases "drop_bit 3 t = ACPI_SMALL_IRQ")
      case True
      then have u: "unknown_before_end (drop (unat (t AND 7) + 1) data)"
        using "1.prems" nt small ne by (simp add: data unknown_before_end.simps and_7)
      have len: "length (drop (unat (t AND 7) + 1) data) < length data"
        by (simp add: data)
      show ?thesis
      proof (cases "load_le 2 data 1")
        case UB
        then show ?thesis
          using nt small ne True
          by (subst lai_read_loop.simps) (simp add: data and_80)
      next
        case (Ret m)
        show ?thesis
        proof (cases "small_irq_loop c data (unat (t AND 7)) (of_nat m) 0 count dest")
          case UB
          then show ?thesis
            using nt small ne True Ret
            by (subst lai_read_loop.simps) (simp add: data and_80)
        next
          case inner: (Ret r)
          obtain count' dest' where r: "r = (count', dest')"
            by (cases r)
          have "lai_read_loop c data count dest
              = lai_read_loop c (drop (unat (t AND 7) + 1) data) count' dest'"
            using nt small ne True Ret inner r
            by (subst lai_read_loop.simps) (simp add: data and_80)
          then show ?thesis
            using IH [OF len u, of count' dest'] by simp
        qed
      qed
    next
      case False
      then show ?thesis
        using nt small ne
        by (subst lai_read_loop.simps) (simp add: data and_80)
    qed
  next
    case large: True
    show ?thesis
    proof (cases "t = ACPI_LARGE_IRQ")
      case False
      then have "lai_read_loop c data count dest
        = (case byte_at data 1 of UB \<Rightarrow> UB
           | Ret d1 \<Rightarrow> (case byte_at data 2 of UB \<Rightarrow> UB | Ret d2 \<Rightarrow> Ret (0, dest)))"
        using nt large
        by (subst lai_read_loop.simps) (simp add: data and_80 split: outcome.splits)
      then show ?thesis
        by (auto split: outcome.splits)
    next
      case True
      with "1.prems" nt large obtain l0 l1 payload where rest: "rest = l0 # l1 # payload"
        and u: "unknown_before_end (drop (unat l0 + 256 * unat l1) payload)"
        by (auto simp: data unknown_before_end.simps split: list.splits)
      have dr: "drop (unat ((ucast l0 AND 0xFF) OR shifted_byte (l1 AND 0xFF) 8 :: 64 word) + 3) data
          = drop (unat l0 + 256 * unat l1) payload"
        by (simp only: large_size data rest drop_3_more)
      have len: "length (drop (unat l0 + 256 * unat l1) payload) < length data"
        by (simp add: data rest)
      have b: "byte_at data 1 = Ret l0" "byte_at data 2 = Ret l1"
        by (simp_all add: byte_at_def data rest)
      show ?thesis
      proof (cases "large_irq_irq c data")
        case UB
        then show ?thesis
          using nt large True b
          by (subst lai_read_loop.simps) (simp add: data and_80)
      next
        case irq: (Ret irq)
        show ?thesis
        proof (cases "large_irq_config c data")
          case UB
          then show ?thesis
            using nt large True b irq
            by (subst lai_read_loop.simps) (simp add: data and_80)
        next
          case cfg: (Ret config)
          show ?thesis
          proof (cases "write_irq dest count (ACPI_RESOURCE_IRQ c) irq config")
            case UB
            then show ?thesis
              using nt large True b irq cfg
              by (subst lai_read_loop.simps) (simp add: data and_80)
          next
            case (Ret dest')
            have "lai_read_loop c data count dest
              = lai_read_loop c (drop (unat l0 + 256 * unat l1) payload) (count + 1) dest'"
              using nt large True b irq cfg Ret dr
              by (subst lai_read_loop.simps) (simp add: data and_80)
            then show ?thesis
              using IH [OF len u, of "count + 1" dest'] by simp
          qed
        qed
      qed
    qed
  qed
qed

text \<open>
  C9. When the descriptor stream of the buffer holds, before any end tag, a descriptor
  that is neither a small IRQ, a large IRQ nor a small end tag, the parser never
  returns a positive count: whatever it had counted, the run either leaves the buffer
  or the destination array (undefined behaviour) or returns 0. The same holds of
  \<^verbatim>\<open>lai_read_resource\<close> on a device whose \<^verbatim>\<open>_CRS\<close> evaluates to such a buffer.
\<close>

theorem unknown_descriptor_reports_zero:
  assumes "unknown_before_end data"
  shows "(lai_read_loop c data count dest = UB
      \<or> (\<exists>dest'. lai_read_loop c data count dest = Ret (0, dest')))
    \<and> (path_append (ACPI_MAX_NAME (constants ns)) (n_path (node ns dev)) ''._CRS'' = Ret crs
        \<and> lai_eval ns zero_object crs = Some (0, buffer) \<and> o_buffer buffer = data \<longrightarrow>
       lai_read_resource ns (Some dev) dest = Some UB
       \<or> (\<exists>dest'. lai_read_resource ns (Some dev) dest = Some (Ret (0, dest'))))"
proof (intro conjI impI)
  show "lai_read_loop c data count dest = UB
      \<or> (\<exists>dest'. lai_read_loop c data count dest = Ret (0, dest'))"
    using assms by (rule unknown_descriptor_loop)
next
  assume a: "path_append (ACPI_MAX_NAME (constants ns)) (n_path (node ns dev)) ''._CRS'' = Ret crs
        \<and> lai_eval ns zero_object crs = Some (0, buffer) \<and> o_buffer buffer = data"
  then have "lai_read_resource ns (Some dev) dest = Some (lai_read_loop (constants ns) data 0 dest)"
    by (simp add: lai_read_resource_def)
  then show "lai_read_resource ns (Some dev) dest = Some UB
       \<or> (\<exists>dest'. lai_read_resource ns (Some dev) dest = Some (Ret (0, dest')))"
    using unknown_descriptor_loop [OF assms, of "constants ns" 0 dest] by auto
qed

theorem unknown_descriptor_reports_zero_witness:
  "unknown_before_end [0x22, 0x20, 0x00, 0x47, 0x01, 0x70, 0x00, 0x70, 0x00, 0x01, 0x08, 0x79, 0x00]
   \<and> path_append (ACPI_MAX_NAME (constants example_namespace))
         (n_path (node example_namespace 6)) ''._CRS'' = Ret ''_SB_.LNKC._CRS''
   \<and> lai_eval example_namespace zero_object ''_SB_.LNKC._CRS''
       = Some (0, Lai_object LAI_BUFFER 0 [] []
           [0x22, 0x20, 0x00, 0x47, 0x01, 0x70, 0x00, 0x70, 0x00, 0x01, 0x08, 0x79, 0x00] None)
   \<and> lai_read_resource example_namespace (Some 6) (zero_resources example_constants)
       = Some (Ret (0, [\<lparr>type = 3, base = 5, irq_flags = 1\<rparr>, \<lparr>type = 0, base = 0, irq_flags = 0\<rparr>,
                        \<lparr>type = 0, base = 0, irq_flags = 0\<rparr>, \<lparr>type = 0, base = 0, irq_flags = 0\<rparr>]))"
proof -
  let ?data = "[0x22, 0x20, 0x00, 0x47, 0x01, 0x70, 0x00, 0x70, 0x00, 0x01, 0x08, 0x79, 0x00] :: 8 word list"
  have u: "unknown_before_end ?data"
    by code_simp
  have p: "path_append (ACPI_MAX_NAME (constants example_namespace))
         (n_path (node example_namespace 6)) ''._CRS'' = Ret ''_SB_.LNKC._CRS''"
    by code_simp
  have e: "lai_eval example_namespace zero_object ''_SB_.LNKC._CRS''
       = Some (0, Lai_object LAI_BUFFER 0 [] [] ?data None)"
    by code_simp
  have r: "lai_read_resource example_namespace (Some 6) (zero_resources example_constants)
       = Some (Ret (0, [\<lparr>type = 3, base = 5, irq_flags = 1\<rparr>, \<lparr>type = 0, base = 0, irq_flags = 0\<rparr>,
                        \<lparr>type = 0, base = 0, irq_flags = 0\<rparr>, \<lparr>type = 0, base = 0, irq_flags = 0\<rparr>]))"
    by code_simp
  show ?thesis
    using u p e r
      unknown_descriptor_reports_zero [OF u, where ns = example_namespace and dev = 6
        and crs = "''_SB_.LNKC._CRS''" and dest = "zero_resources example_constants"
        and buffer = "Lai_object LAI_BUFFER 0 [] [] ?data None"]
    by simp
qed

section \<open>pciroute.c: the router\<close>

subsection \<open>The interrupt pin\<close>

lemma high_byte: "unat (ucast (drop_bit 8 (w :: 16 word)) :: 8 word) = unat w div 256"
proof -
  have "unat w < 65536"
    using unsigned_less [of w, where 'a = nat] by simp
  then have "unat w div 256 < 256"
    by simp
  then show ?thesis
    by (simp add: unsigned_ucast_eq drop_bit_eq_div unat_div take_bit_nat_eq_self)
qed

lemma byte_is_pin:
  fixes b :: "8 word"
  shows "(b = 0) = (unat b = 0)" and "(4 < b) = (4 < unat b)"
    and "1 \<le> unat b \<Longrightarrow> b - 1 = of_nat (unat b - 1)"
proof -
  show "(b = 0) = (unat b = 0)"
    by (simp add: unat_eq_0)
  show "(4 < b) = (4 < unat b)"
    by (simp add: word_less_nat_alt)
  show "1 \<le> unat b \<Longrightarrow> b - 1 = of_nat (unat b - 1)"
    by (simp add: of_nat_diff)
qed

lemma lai_pci_route_by_pin:
  "lai_pci_route ns dest bus slot func
    = (if interrupt_pin ns bus slot func = 0 \<or> 4 < interrupt_pin ns bus slot func
       then Some (Ret (1, dest))
       else route_pin ns dest bus slot func (of_nat (interrupt_pin ns bus slot func - 1)))"
proof -
  define pin :: "8 word" where "pin = ucast (drop_bit 8 (laihost_pci_read ns bus slot func 0x3C))"
  have p: "unat pin = interrupt_pin ns bus slot func"
    by (simp add: pin_def interrupt_pin_def high_byte)
  have r: "lai_pci_route ns dest bus slot func
      = (if pin = 0 \<or> pin > 4 then Some (Ret (1, dest))
         else route_pin ns dest bus slot func (pin - 1))"
    by (simp add: lai_pci_route_def pin_def Let_def)
  show ?thesis
    unfolding r p [symmetric]
    using byte_is_pin [of pin] by auto
qed

text \<open>
  C5. With \<open>p\<close> the high byte of the 16-bit read at offset 0x3C:
  when \<open>p\<close> is 0 or above 4, \<^verbatim>\<open>lai_pci_route\<close> returns 1 at once and leaves the
  destination alone; when \<open>p\<close> is 1 to 4, it is the rest of the function run with the
  pin index \<open>p - 1\<close>, so that the pin byte 1 is the pin index 0.
\<close>

theorem lai_pci_route_pin:
  "(interrupt_pin ns bus slot func = 0 \<or> 4 < interrupt_pin ns bus slot func \<longrightarrow>
      lai_pci_route ns dest bus slot func = Some (Ret (1, dest)))
   \<and> (1 \<le> interrupt_pin ns bus slot func \<and> interrupt_pin ns bus slot func \<le> 4 \<longrightarrow>
      lai_pci_route ns dest bus slot func
        = route_pin ns dest bus slot func (of_nat (interrupt_pin ns bus slot func - 1)))
   \<and> (interrupt_pin ns bus slot func = 1 \<longrightarrow>
      lai_pci_route ns dest bus slot func = route_pin ns dest bus slot func 0)"
  by (auto simp: lai_pci_route_by_pin)

theorem lai_pci_route_pin_witness:
  "interrupt_pin example_namespace 0 1 0 = 1
   \<and> lai_pci_route example_namespace \<lparr>type = 0, base = 0, irq_flags = 0\<rparr> 0 1 0
       = route_pin example_namespace \<lparr>type = 0, base = 0, irq_flags = 0\<rparr> 0 1 0 0
   \<and> interrupt_pin example_namespace 0 0 0 = 0
   \<and> lai_pci_route example_namespace \<lparr>type = 0, base = 0, irq_flags = 0\<rparr> 0 0 0
       = Some (Ret (1, \<lparr>type = 0, base = 0, irq_flags = 0\<rparr>))
   \<and> interrupt_pin example_namespace 0 5 0 = 5
   \<and> lai_pci_route example_namespace \<lparr>type = 0, base = 0, irq_flags = 0\<rparr> 0 5 0
       = Some (Ret (1, \<lparr>type = 0, base = 0, irq_flags = 0\<rparr>))"
proof -
  have p: "interrupt_pin example_namespace 0 1 0 = 1" "interrupt_pin example_namespace 0 0 0 = 0"
    "interrupt_pin example_namespace 0 5 0 = 5"
    by code_simp+
  show ?thesis
    using p
      lai_pci_route_pin [of example_namespace 0 1 0 "\<lparr>type = 0, base = 0, irq_flags = 0\<rparr>"]
      lai_pci_route_pin [of example_namespace 0 0 0 "\<lparr>type = 0, base = 0, irq_flags = 0\<rparr>"]
      lai_pci_route_pin [of example_namespace 0 5 0 "\<lparr>type = 0, base = 0, irq_flags = 0\<rparr>"]
    by simp
qed

subsection \<open>The scan of the routing table\<close>

lemma and_FFFF: "(w :: 64 word) AND 0xFFFF = take_bit 16 w"
  by (simp add: take_bit_eq_mask mask_eq_exp_minus_1)

lemma skipped_not_matches:
  "prt_entry_skipped slot func pin entry \<Longrightarrow> \<not> prt_entry_matches slot func pin entry"
  by (auto simp: prt_entry_skipped_def prt_entry_matches_def)

text \<open>One iteration of the scan, by what the entry at the index is.\<close>

lemma prt_scan_out_of_range:
  assumes "o_type prt \<noteq> LAI_PACKAGE \<or> length (o_package prt) \<le> i"
  shows "prt_scan prt slot func pin i pp pe = Return_1"
  using assms by (subst prt_scan.simps) (auto simp: lai_eval_package_def)

lemma prt_scan_match:
  assumes "o_type prt = LAI_PACKAGE" and "i < length (o_package prt)"
    and "prt_entry_matches slot func pin (o_package prt ! i)"
  shows "prt_scan prt slot func pin i pp pe
    = Resolve_pin i (o_package prt ! i) (o_package (o_package prt ! i) ! 1)"
  using assms
  by (subst prt_scan.simps)
     (auto simp: lai_eval_package_def lai_copy_object_def prt_entry_matches_def
        prt_address_matches_def and_FFFF)

lemma prt_scan_skip:
  assumes "o_type prt = LAI_PACKAGE" and "i < length (o_package prt)"
    and "prt_entry_skipped slot func pin (o_package prt ! i)"
  shows "\<exists>pp' pe'. prt_scan prt slot func pin i pp pe = prt_scan prt slot func pin (i + 1) pp' pe'"
  using assms
  by (subst prt_scan.simps)
     (auto simp: lai_eval_package_def lai_copy_object_def prt_entry_skipped_def
        prt_address_matches_def and_FFFF)

lemma prt_scan_malformed:
  assumes "o_type prt = LAI_PACKAGE" and "i < length (o_package prt)"
    and "\<not> prt_entry_skipped slot func pin (o_package prt ! i)"
    and "\<not> prt_entry_matches slot func pin (o_package prt ! i)"
  shows "prt_scan prt slot func pin i pp pe = Return_1"
  using assms
  by (subst prt_scan.simps)
     (auto simp: lai_eval_package_def lai_copy_object_def prt_entry_skipped_def
        prt_entry_matches_def prt_address_matches_def and_FFFF not_le less_Suc_eq_le)

lemma prt_scan_from:
  "prt_scan prt slot func pin i pp pe = Resolve_pin k pkg e \<longleftrightarrow>
     o_type prt = LAI_PACKAGE \<and> i \<le> k \<and> k < length (o_package prt)
     \<and> pkg = o_package prt ! k \<and> e = o_package pkg ! 1
     \<and> prt_entry_matches slot func pin pkg
     \<and> (\<forall>j. i \<le> j \<and> j < k \<longrightarrow> prt_entry_skipped slot func pin (o_package prt ! j))"
proof (induction "length (o_package prt) - i" arbitrary: i pp pe)
  case 0
  then have "prt_scan prt slot func pin i pp pe = Return_1"
    by (intro prt_scan_out_of_range) simp
  with 0 show ?case by auto
next
  case (Suc n)
  show ?case
  proof (cases "o_type prt = LAI_PACKAGE")
    case False
    then show ?thesis by (simp add: prt_scan_out_of_range)
  next
    case pk: True
    have i: "i < length (o_package prt)"
      using Suc.hyps(2) by simp
    let ?entry = "o_package prt ! i"
    show ?thesis
    proof (cases "prt_entry_matches slot func pin ?entry")
      case True
      have "prt_scan prt slot func pin i pp pe
          = Resolve_pin i ?entry (o_package ?entry ! 1)"
        using pk i True by (rule prt_scan_match)
      moreover have "(\<forall>j. i \<le> j \<and> j < k \<longrightarrow> prt_entry_skipped slot func pin (o_package prt ! j))
          \<Longrightarrow> i < k \<Longrightarrow> False"
        using True skipped_not_matches [of slot func pin ?entry] by (metis le_refl)
      ultimately show ?thesis
        using pk i True by (auto simp: le_less)
    next
      case nm: False
      show ?thesis
      proof (cases "prt_entry_skipped slot func pin ?entry")
        case True
        from prt_scan_skip [OF pk i True] obtain pp' pe'
          where st: "prt_scan prt slot func pin i pp pe = prt_scan prt slot func pin (i + 1) pp' pe'"
          by blast
        have ih: "prt_scan prt slot func pin (i + 1) pp' pe' = Resolve_pin k pkg e \<longleftrightarrow>
           o_type prt = LAI_PACKAGE \<and> i + 1 \<le> k \<and> k < length (o_package prt)
           \<and> pkg = o_package prt ! k \<and> e = o_package pkg ! 1
           \<and> prt_entry_matches slot func pin pkg
           \<and> (\<forall>j. i + 1 \<le> j \<and> j < k \<longrightarrow> prt_entry_skipped slot func pin (o_package prt ! j))"
          using Suc.hyps(2) by (intro Suc.hyps(1)) simp
        have a: "(\<forall>j. i \<le> j \<and> j < k \<longrightarrow> prt_entry_skipped slot func pin (o_package prt ! j))
           \<longleftrightarrow> (\<forall>j. i + 1 \<le> j \<and> j < k \<longrightarrow> prt_entry_skipped slot func pin (o_package prt ! j))"
        proof (intro iffI allI impI)
          fix j
          assume "\<forall>j. i \<le> j \<and> j < k \<longrightarrow> prt_entry_skipped slot func pin (o_package prt ! j)"
            and "i + 1 \<le> j \<and> j < k"
          then show "prt_entry_skipped slot func pin (o_package prt ! j)"
            by simp
        next
          fix j
          assume h: "\<forall>j. i + 1 \<le> j \<and> j < k \<longrightarrow> prt_entry_skipped slot func pin (o_package prt ! j)"
            and j: "i \<le> j \<and> j < k"
          show "prt_entry_skipped slot func pin (o_package prt ! j)"
          proof (cases "j = i")
            case eq: True
            then show ?thesis using True by simp
          next
            case False
            then have "i + 1 \<le> j" using j by simp
            with h j show ?thesis by blast
          qed
        qed
        have b: "pkg = o_package prt ! k \<Longrightarrow> prt_entry_matches slot func pin pkg \<Longrightarrow> k \<noteq> i"
          using nm by auto
        show ?thesis
          unfolding st ih a [symmetric] using b by (auto simp: Suc_le_eq le_less)
      next
        case False
        have "prt_scan prt slot func pin i pp pe = Return_1"
          using pk i False nm by (rule prt_scan_malformed)
        moreover have "\<not> (i \<le> k \<and> pkg = o_package prt ! k \<and> prt_entry_matches slot func pin pkg
            \<and> (\<forall>j. i \<le> j \<and> j < k \<longrightarrow> prt_entry_skipped slot func pin (o_package prt ! j)))"
          using False nm by (metis le_less le_refl)
        ultimately show ?thesis by auto
      qed
    qed
  qed
qed

text \<open>
  C1, as amended. The scan reaches the label \<^verbatim>\<open>resolve_pin\<close> with the entry at index
  \<open>k\<close> exactly when the table is a package, that entry matches, and every entry before
  it is skipped; no entry before the one resolved matches, so the entry resolved is the
  matching entry of the lowest index, whether it is a wildcard entry or an exact one.
  An entry before it that is neither matching nor skipped (not a package, or an element
  that is missing or not an integer) makes the scan return 1.
\<close>

theorem prt_scan_first_match:
  "(prt_scan prt slot func pin 0 prt_package prt_entry = Resolve_pin k pkg e \<longleftrightarrow>
      o_type prt = LAI_PACKAGE \<and> k < length (o_package prt)
      \<and> pkg = o_package prt ! k \<and> e = o_package pkg ! 1
      \<and> prt_entry_matches slot func pin pkg
      \<and> (\<forall>j<k. prt_entry_skipped slot func pin (o_package prt ! j)))
   \<and> (prt_scan prt slot func pin 0 prt_package prt_entry = Resolve_pin k pkg e \<longrightarrow>
        (\<forall>j<k. \<not> prt_entry_matches slot func pin (o_package prt ! j)))"
proof -
  have 1: "prt_scan prt slot func pin 0 prt_package prt_entry = Resolve_pin k pkg e \<longleftrightarrow>
      o_type prt = LAI_PACKAGE \<and> k < length (o_package prt)
      \<and> pkg = o_package prt ! k \<and> e = o_package pkg ! 1
      \<and> prt_entry_matches slot func pin pkg
      \<and> (\<forall>j<k. prt_entry_skipped slot func pin (o_package prt ! j))"
    by (simp add: prt_scan_from)
  then have "prt_scan prt slot func pin 0 prt_package prt_entry = Resolve_pin k pkg e \<longrightarrow>
        (\<forall>j<k. \<not> prt_entry_matches slot func pin (o_package prt ! j))"
    using skipped_not_matches by blast
  with 1 show ?thesis by blast
qed

theorem prt_scan_first_match_witness:
  "prt_entry_skipped 1 2 0 (o_package prt_wildcard_first ! 0)
   \<and> prt_entry_matches 1 2 0 (o_package prt_wildcard_first ! 1)
   \<and> prt_entry_matches 1 2 0 (o_package prt_wildcard_first ! 2)
   \<and> prt_scan prt_wildcard_first 1 2 0 0 zero_object zero_object
       = Resolve_pin 1 (routing_entry 0x0001FFFF 0 9) (Lai_object LAI_INTEGER 0 [] [] [] None)
   \<and> prt_entry_skipped 1 2 0 (o_package prt_exact_first ! 0)
   \<and> prt_entry_matches 1 2 0 (o_package prt_exact_first ! 1)
   \<and> prt_entry_matches 1 2 0 (o_package prt_exact_first ! 2)
   \<and> prt_scan prt_exact_first 1 2 0 0 zero_object zero_object
       = Resolve_pin 1 (routing_entry 0x00010002 0 10) (Lai_object LAI_INTEGER 0 [] [] [] None)"
proof -
  have w: "prt_entry_skipped 1 2 0 (o_package prt_wildcard_first ! 0)"
    "prt_entry_matches 1 2 0 (o_package prt_wildcard_first ! 1)"
    "prt_entry_matches 1 2 0 (o_package prt_wildcard_first ! 2)"
    by code_simp+
  have x: "prt_entry_skipped 1 2 0 (o_package prt_exact_first ! 0)"
    "prt_entry_matches 1 2 0 (o_package prt_exact_first ! 1)"
    "prt_entry_matches 1 2 0 (o_package prt_exact_first ! 2)"
    by code_simp+
  have sw: "o_type prt_wildcard_first = LAI_PACKAGE" "1 < length (o_package prt_wildcard_first)"
    "routing_entry 0x0001FFFF 0 9 = o_package prt_wildcard_first ! 1"
    "Lai_object LAI_INTEGER 0 [] [] [] None = o_package (routing_entry 0x0001FFFF 0 9) ! 1"
    by (simp_all add: prt_wildcard_first_def routing_entry_def)
  have sx: "o_type prt_exact_first = LAI_PACKAGE" "1 < length (o_package prt_exact_first)"
    "routing_entry 0x00010002 0 10 = o_package prt_exact_first ! 1"
    "Lai_object LAI_INTEGER 0 [] [] [] None = o_package (routing_entry 0x00010002 0 10) ! 1"
    by (simp_all add: prt_exact_first_def routing_entry_def)
  have "prt_scan prt_wildcard_first 1 2 0 0 zero_object zero_object
       = Resolve_pin 1 (routing_entry 0x0001FFFF 0 9) (Lai_object LAI_INTEGER 0 [] [] [] None)"
    using w sw by (simp add: prt_scan_first_match [THEN conjunct1])
  moreover have "prt_scan prt_exact_first 1 2 0 0 zero_object zero_object
       = Resolve_pin 1 (routing_entry 0x00010002 0 10) (Lai_object LAI_INTEGER 0 [] [] [] None)"
    using x sx by (simp add: prt_scan_first_match [THEN conjunct1])
  ultimately show ?thesis
    using w x by simp
qed

text \<open>
  C1 as it is written fails on a table whose first entry is an integer and whose second
  entry matches: the claim has the second entry resolved, the scan returns 1.
\<close>

theorem prt_scan_malformed_entry_counterexample:
  "prt_entry_matches 1 2 0 (o_package prt_malformed_first ! 1)
   \<and> \<not> prt_entry_matches 1 2 0 (o_package prt_malformed_first ! 0)
   \<and> prt_scan prt_malformed_first 1 2 0 0 zero_object zero_object = Return_1"
  by code_simp

subsection \<open>Link devices\<close>

lemma irq_prefix_0 [simp]: "irq_prefix c 0 dest"
  by (simp add: irq_prefix_def)

lemma write_irq_prefix:
  assumes "write_irq dest count (ACPI_RESOURCE_IRQ c) b f = Ret dest'"
    and "irq_prefix c count dest"
  shows "irq_prefix c (Suc count) dest'"
  using assms
  by (auto simp: write_irq_def irq_prefix_def nth_list_update less_Suc_eq split: if_splits)

lemma small_irq_loop_prefix:
  "small_irq_loop c data data_size m i count dest = Ret (n, dest') \<Longrightarrow>
   irq_prefix c count dest \<Longrightarrow> irq_prefix c n dest'"
proof (induction c data data_size m i count dest rule: small_irq_loop.induct)
  case (1 c data data_size m i count dest)
  show ?case
  proof (cases "m = 0")
    case True
    then show ?thesis
      using "1.prems" by (subst (asm) small_irq_loop.simps) simp
  next
    case nz: False
    show ?thesis
    proof (cases "31 \<le> i")
      case True
      then show ?thesis
        using "1.prems" nz by (subst (asm) small_irq_loop.simps) simp
    next
      case lt: False
      show ?thesis
      proof (cases "(ucast m :: 32 word) AND push_bit i 1 \<noteq> 0")
        case False
        then have "small_irq_loop c data data_size m (i + 1) count dest = Ret (n, dest')"
          using "1.prems"(1) nz lt by (subst (asm) small_irq_loop.simps) simp
        then show ?thesis
          using "1.IH"(2) [OF nz lt False] "1.prems"(2) by simp
      next
        case True
        let ?fl = "if data_size \<ge> 3 then byte_at data 3
                  else Ret (ACPI_IRQ_ACTIVE_HIGH c OR ACPI_IRQ_EDGE c OR ACPI_IRQ_EXCLUSIVE c)"
        from "1.prems"(1) nz lt True obtain flags where fl: "?fl = Ret flags"
          by (subst (asm) small_irq_loop.simps) (auto split: outcome.splits)
        from "1.prems"(1) nz lt True fl obtain d where
          w: "write_irq dest count (ACPI_RESOURCE_IRQ c) (of_nat i) flags = Ret d"
          by (subst (asm) small_irq_loop.simps) (auto split: outcome.splits)
        have "small_irq_loop c data data_size
                (ucast ((ucast m :: 32 word) AND NOT (push_bit i 1))) (i + 1) (count + 1) d
              = Ret (n, dest')"
          using "1.prems"(1) nz lt True fl w
          by (subst (asm) small_irq_loop.simps) (simp split: outcome.splits)
        moreover have "irq_prefix c (count + 1) d"
          using write_irq_prefix [OF w "1.prems"(2)] by simp
        ultimately show ?thesis
          using "1.IH"(1) [OF nz lt True fl w] by simp
      qed
    qed
  qed
qed

lemma lai_read_loop_prefix:
  "lai_read_loop c data count dest = Ret (n, dest') \<Longrightarrow>
   irq_prefix c count dest \<Longrightarrow> irq_prefix c n dest'"
proof (induction data arbitrary: count dest rule: length_induct)
  case (1 data)
  note IH = "1.IH" [rule_format]
  note run = "1.prems"(1)
  from run obtain t rest where data: "data = t # rest"
    by (cases data) (auto simp: lai_read_loop.simps)
  show ?case
  proof (cases "t = 0x79")
    case True
    then have "n = count" "dest' = dest"
      using run by (subst (asm) lai_read_loop.simps; simp add: data)+
    then show ?thesis using "1.prems"(2) by simp
  next
    case nt: False
    show ?thesis
    proof (cases "t AND 0x80 = 0")
      case small: True
      show ?thesis
      proof (cases "drop_bit 3 t = ACPI_SMALL_END")
        case True
        then have "n = count" "dest' = dest"
          using run nt small by (subst (asm) lai_read_loop.simps; simp add: data)+
        then show ?thesis using "1.prems"(2) by simp
      next
        case ne: False
        show ?thesis
        proof (cases "drop_bit 3 t = ACPI_SMALL_IRQ")
          case False
          then have "n = 0"
            using run nt small ne by (subst (asm) lai_read_loop.simps) (simp add: data)
          then show ?thesis by simp
        next
          case True
          from run nt small ne True obtain m where m: "load_le 2 data 1 = Ret m"
            by (subst (asm) lai_read_loop.simps) (auto simp: data split: outcome.splits)
          from run nt small ne True m obtain count' d where
            inner: "small_irq_loop c data (unat (t AND 7)) (of_nat m) 0 count dest = Ret (count', d)"
            by (subst (asm) lai_read_loop.simps) (auto simp: data split: outcome.splits)
          have next_run: "lai_read_loop c (drop (unat (t AND 7) + 1) data) count' d = Ret (n, dest')"
            using run nt small ne True m inner
            by (subst (asm) lai_read_loop.simps) (simp add: data)
          have "irq_prefix c count' d"
            using small_irq_loop_prefix [OF inner "1.prems"(2)] .
          moreover have "length (drop (unat (t AND 7) + 1) data) < length data"
            by (simp add: data)
          ultimately show ?thesis
            using IH [OF _ next_run] by blast
        qed
      qed
    next
      case large: False
      from run nt large obtain d1 d2 where b: "byte_at data 1 = Ret d1" "byte_at data 2 = Ret d2"
        by (subst (asm) lai_read_loop.simps) (auto simp: data split: outcome.splits)
      show ?thesis
      proof (cases "t = ACPI_LARGE_IRQ")
        case False
        then have "n = 0"
          using run nt large b by (subst (asm) lai_read_loop.simps) (simp add: data)
        then show ?thesis by simp
      next
        case True
        from run nt large b True obtain irq where irq: "large_irq_irq c data = Ret irq"
          by (subst (asm) lai_read_loop.simps) (auto simp: data split: outcome.splits)
        from run nt large b True irq obtain config where cfg: "large_irq_config c data = Ret config"
          by (subst (asm) lai_read_loop.simps) (auto simp: data split: outcome.splits)
        from run nt large b True irq cfg obtain d where
          w: "write_irq dest count (ACPI_RESOURCE_IRQ c) irq config = Ret d"
          by (subst (asm) lai_read_loop.simps) (auto simp: data split: outcome.splits)
        let ?rest = "drop (unat ((ucast d1 AND 0xFF) OR shifted_byte (d2 AND 0xFF) 8 :: 64 word) + 3) data"
        have next_run: "lai_read_loop c ?rest (count + 1) d = Ret (n, dest')"
          using run nt large b True irq cfg w
          by (subst (asm) lai_read_loop.simps) (simp add: data)
        have "irq_prefix c (count + 1) d"
          using write_irq_prefix [OF w "1.prems"(2)] by simp
        moreover have "length ?rest < length data"
          by (simp add: data)
        ultimately show ?thesis
          using IH [OF _ next_run] by blast
      qed
    qed
  qed
qed

lemma lai_read_resource_prefix:
  assumes "lai_read_resource ns device dest = Some (Ret (n, dest'))"
  shows "irq_prefix (constants ns) n dest'"
  using assms lai_read_loop_prefix [of "constants ns" _ 0 dest n dest']
  by (auto simp: lai_read_resource_def split: option.splits outcome.splits if_splits prod.splits)

lemma link_loop_first:
  assumes "0 < n" and "irq_prefix c n res"
  shows "link_loop c dest res n 0
    = Ret (0, dest\<lparr>type := ACPI_RESOURCE_IRQ c, base := base (res ! 0),
                    irq_flags := irq_flags (res ! 0)\<rparr>)"
  using assms by (subst link_loop.simps) (auto simp: irq_prefix_def)

lemma resolve_pin_link:
  assumes "lai_eval_package prt_package 2 prt_entry = (0, link)" and "o_type link = LAI_HANDLE"
    and "lai_read_resource ns (o_handle link) (zero_resources (constants ns))
          = Some (Ret (res_count, res))"
  shows "resolve_pin ns dest prt_package prt_entry
    = (if res_count = 0 then Some (Ret (1, dest))
       else Some (Ret (0, dest\<lparr>type := ACPI_RESOURCE_IRQ (constants ns), base := base (res ! 0),
                              irq_flags := irq_flags (res ! 0)\<rparr>)))"
proof (cases "res_count = 0")
  case True
  then show ?thesis
    using assms by (simp add: resolve_pin_def)
next
  case False
  then have "link_loop (constants ns) dest res res_count 0
    = Ret (0, dest\<lparr>type := ACPI_RESOURCE_IRQ (constants ns), base := base (res ! 0),
                    irq_flags := irq_flags (res ! 0)\<rparr>)"
    using lai_read_resource_prefix [OF assms(3)] by (intro link_loop_first) simp_all
  then show ?thesis
    using assms False by (simp add: resolve_pin_def)
qed

lemma resolve_pin_success:
  assumes "resolve_pin ns dest prt_package prt_entry = Some (Ret (0, dest'))"
  shows "\<exists>b f. dest' = dest\<lparr>type := ACPI_RESOURCE_IRQ (constants ns), base := b, irq_flags := f\<rparr>"
proof -
  obtain status link where l: "lai_eval_package prt_package 2 prt_entry = (status, link)"
    by (cases "lai_eval_package prt_package 2 prt_entry")
  show ?thesis
  proof (cases "status = 0 \<and> o_type link = LAI_HANDLE")
    case True
    with assms l obtain res_count res where
      r: "lai_read_resource ns (o_handle link) (zero_resources (constants ns))
            = Some (Ret (res_count, res))"
      by (auto simp: resolve_pin_def split: option.splits outcome.splits)
    show ?thesis
      using assms resolve_pin_link [of prt_package prt_entry link ns res_count res dest] l True r
      by (auto split: if_splits)
  next
    case False
    then show ?thesis
      using assms l
      by (auto simp: resolve_pin_def split: if_splits prod.splits)
  qed
qed

lemma lai_pci_route_success:
  assumes "lai_pci_route ns dest bus slot func = Some (Ret (0, dest'))"
  shows "\<exists>b f. dest' = dest\<lparr>type := ACPI_RESOURCE_IRQ (constants ns), base := b, irq_flags := f\<rparr>"
  using assms resolve_pin_success [of ns dest _ _ dest']
  by (auto simp: lai_pci_route_def route_pin_def Let_def
        split: if_splits option.splits outcome.splits prod.splits scan_result.splits)

text \<open>
  C2. When the query reaches a routing entry whose element [2] is a handle and the
  resource list read from that link device has no entry of kind IRQ, then the list is
  empty and \<^verbatim>\<open>lai_pci_route\<close> returns 1 with the destination as it was: every entry
  that \<^verbatim>\<open>lai_read_resource\<close> counts is of kind IRQ, so the final \<^verbatim>\<open>return 0\<close> behind
  the loop over the resources is never reached (\<open>lai_pci_route_success\<close>: a return of 0
  has always written the destination).
\<close>

theorem link_device_without_interrupt_fails:
  assumes pin: "1 \<le> interrupt_pin ns bus slot func" "interrupt_pin ns bus slot func \<le> 4"
    and root: "lai_eisaid zero_object PCI_PNP_ID = Ret pnp_id"
      "find_root_bus ns bus pnp_id 0 zero_object = Some (Ret (Some handle))"
    and prt: "path_append (ACPI_MAX_NAME (constants ns)) (n_path (node ns handle)) ''._PRT''
        = Ret path"
      "lai_eval ns zero_object path = Some (0, prt)"
    and scan: "prt_scan prt slot func (of_nat (interrupt_pin ns bus slot func - 1)) 0
        zero_object zero_object = Resolve_pin i prt_package prt_entry"
    and link: "lai_eval_package prt_package 2 prt_entry = (0, link)" "o_type link = LAI_HANDLE"
    and res: "lai_read_resource ns (o_handle link) (zero_resources (constants ns))
        = Some (Ret (res_count, res))"
    and none: "\<forall>j<res_count. type (res ! j) \<noteq> ACPI_RESOURCE_IRQ (constants ns)"
  shows "res_count = 0 \<and> lai_pci_route ns dest bus slot func = Some (Ret (1, dest))"
proof -
  have "irq_prefix (constants ns) res_count res"
    using res by (rule lai_read_resource_prefix)
  with none have z: "res_count = 0"
    by (auto simp: irq_prefix_def)
  have "lai_pci_route ns dest bus slot func
      = route_pin ns dest bus slot func (of_nat (interrupt_pin ns bus slot func - 1))"
    using pin by (simp add: lai_pci_route_by_pin)
  also have "\<dots> = resolve_pin ns dest prt_package prt_entry"
    using root prt scan by (simp add: route_pin_def)
  also have "\<dots> = Some (Ret (1, dest))"
    using resolve_pin_link [OF link res, of dest] z by simp
  finally show ?thesis
    using z by simp
qed

theorem link_device_without_interrupt_fails_witness:
  "interrupt_pin example_namespace 0 3 0 = 3
   \<and> find_root_bus example_namespace 0 (Lai_object LAI_INTEGER 0x030AD041 [] [] [] None) 0
         zero_object = Some (Ret (Some 0))
   \<and> lai_eval example_namespace zero_object ''_SB_.PCI0._PRT'' = Some (0, example_prt)
   \<and> prt_scan example_prt 3 0 2 0 zero_object zero_object
       = Resolve_pin 2 (o_package example_prt ! 2) (Lai_object LAI_INTEGER 2 [] [] [] None)
   \<and> lai_eval_package (o_package example_prt ! 2) 2 (Lai_object LAI_INTEGER 2 [] [] [] None)
       = (0, Lai_object LAI_HANDLE 0 [] [] [] (Some 4))
   \<and> lai_read_resource example_namespace (Some 4) (zero_resources example_constants)
       = Some (Ret (0, zero_resources example_constants))
   \<and> lai_pci_route example_namespace \<lparr>type = 7, base = 7, irq_flags = 7\<rparr> 0 3 0
       = Some (Ret (1, \<lparr>type = 7, base = 7, irq_flags = 7\<rparr>))"
proof -
  let ?id = "Lai_object LAI_INTEGER 0x030AD041 [] [] [] None"
  let ?pin = "Lai_object LAI_INTEGER 2 [] [] [] None"
  let ?link = "Lai_object LAI_HANDLE 0 [] [] [] (Some 4)"
  have p: "interrupt_pin example_namespace 0 3 0 = 3"
    by code_simp
  have p1: "1 \<le> interrupt_pin example_namespace 0 3 0"
    and p2: "interrupt_pin example_namespace 0 3 0 \<le> 4"
    by (simp_all add: p)
  have r1: "lai_eisaid zero_object PCI_PNP_ID = Ret ?id"
    by code_simp
  have r2: "find_root_bus example_namespace 0 ?id 0 zero_object = Some (Ret (Some 0))"
    by code_simp
  have t1: "path_append (ACPI_MAX_NAME (constants example_namespace))
      (n_path (node example_namespace 0)) ''._PRT'' = Ret ''_SB_.PCI0._PRT''"
    by code_simp
  have t2: "lai_eval example_namespace zero_object ''_SB_.PCI0._PRT'' = Some (0, example_prt)"
    by code_simp
  have s: "prt_scan example_prt 3 0 2 0 zero_object zero_object
       = Resolve_pin 2 (o_package example_prt ! 2) ?pin"
    by code_simp
  have s': "prt_scan example_prt 3 0 (of_nat (interrupt_pin example_namespace 0 3 0 - 1)) 0
      zero_object zero_object = Resolve_pin 2 (o_package example_prt ! 2) ?pin"
    using s by (simp add: p)
  have l1: "lai_eval_package (o_package example_prt ! 2) 2 ?pin = (0, ?link)"
    by code_simp
  have l2: "o_type ?link = LAI_HANDLE"
    by simp
  have c: "constants example_namespace = example_constants"
    by (simp add: example_namespace_def)
  have e: "lai_read_resource example_namespace (Some 4) (zero_resources example_constants)
       = Some (Ret (0, zero_resources example_constants))"
    by code_simp
  have e': "lai_read_resource example_namespace (o_handle ?link)
      (zero_resources (constants example_namespace))
       = Some (Ret (0, zero_resources example_constants))"
    using e by (simp add: c)
  have n: "\<forall>j<0. type (zero_resources example_constants ! j)
      \<noteq> ACPI_RESOURCE_IRQ (constants example_namespace)"
    by simp
  show ?thesis
    using p r2 t2 s l1 e
      link_device_without_interrupt_fails [OF p1 p2 r1 r2 t1 t2 s' l1 l2 e' n,
        of "\<lparr>type = 7, base = 7, irq_flags = 7\<rparr>"]
    by simp
qed

end
